theory Spec2Isabelle
  imports Complex_Main "HOL-Library.AList"
begin

section \<open>Python values, exceptions and strings\<close>

text \<open>
  The program is \<^verbatim>\<open>scripts/get_genomes.py\<close> (Python 2). Exceptions are values of
  \<open>py_error\<close>; a function that can raise returns \<open>py_error + 'a\<close> with \<open>Inl\<close> for the
  exception. Dictionaries whose iteration order matters to the code (the profile, the
  genome list) are association lists in iteration order; the others are maps.
\<close>

datatype py_error =
    NameError | UnboundLocalError | KeyError | ValueError | IndexError | TypeError
  | AttributeError | ZeroDivisionError | NoSectionError | NoOptionError

definition is_space :: "char \<Rightarrow> bool" where
  "is_space c = (c = CHR '' '' \<or> c = CHR 0x09 \<or> c = CHR 0x0A \<or> c = CHR 0x0B
                 \<or> c = CHR 0x0C \<or> c = CHR 0x0D)"

text \<open>\<^verbatim>\<open>s.strip()\<close>: whitespace removed at both ends.\<close>

definition strip :: "string \<Rightarrow> string" where
  "strip s = rev (dropWhile is_space (rev (dropWhile is_space s)))"

text \<open>\<^verbatim>\<open>s.split()\<close>: the maximal runs of non-whitespace characters.\<close>

fun split_ws :: "string \<Rightarrow> string \<Rightarrow> string list" where
  "split_ws cur [] = (if cur = [] then [] else [rev cur])"
| "split_ws cur (c # cs) =
     (if is_space c then (if cur = [] then split_ws [] cs else rev cur # split_ws [] cs)
      else split_ws (c # cur) cs)"

text \<open>\<^verbatim>\<open>s.split(c)\<close> for a separator of one character.\<close>

fun split_char :: "char \<Rightarrow> string \<Rightarrow> string \<Rightarrow> string list" where
  "split_char sep cur [] = [rev cur]"
| "split_char sep cur (c # cs) =
     (if c = sep then rev cur # split_char sep [] cs else split_char sep (c # cur) cs)"

text \<open>\<^verbatim>\<open>s.split("__")\<close>: cut at the non-overlapping occurrences found left to right.\<close>

fun split_dunder :: "string \<Rightarrow> string \<Rightarrow> string list" where
  "split_dunder cur [] = [rev cur]"
| "split_dunder cur [c] = [rev (c # cur)]"
| "split_dunder cur (c # d # cs) =
     (if c = CHR ''_'' \<and> d = CHR ''_'' then rev cur # split_dunder [] cs
      else split_dunder (c # cur) (d # cs))"

text \<open>\<^verbatim>\<open>s.replace(old, new)\<close> for a non-empty \<open>old\<close>: every occurrence found left to right.\<close>

function str_replace :: "string \<Rightarrow> string \<Rightarrow> string \<Rightarrow> string" where
  "str_replace old new [] = []"
| "str_replace old new (c # cs) =
     (if old \<noteq> [] \<and> take (length old) (c # cs) = old
      then new @ str_replace old new (drop (length old) (c # cs))
      else c # str_replace old new cs)"
  by pat_completeness auto
termination
  by (relation "measure (\<lambda>(old, new, s). length s)") (auto simp: neq_Nil_conv)

text \<open>\<^verbatim>\<open>str(n)\<close> of an integer.\<close>

definition digit_char :: "nat \<Rightarrow> char" where
  "digit_char d = ''0123456789'' ! d"

fun str_nat :: "nat \<Rightarrow> string" where
  "str_nat n = (if n < 10 then [digit_char n] else str_nat (n div 10) @ [digit_char (n mod 10)])"

declare str_nat.simps [simp del]

definition str :: "int \<Rightarrow> string" where
  "str i = (if i < 0 then CHR ''-'' # str_nat (nat (- i)) else str_nat (nat i))"

text \<open>\<^verbatim>\<open>int(s)\<close> of a string: surrounding whitespace, an optional sign, decimal digits.\<close>

definition is_digit :: "char \<Rightarrow> bool" where
  "is_digit c = ((48::nat) \<le> of_char c \<and> of_char c \<le> (57::nat))"

definition digits_value :: "string \<Rightarrow> int" where
  "digits_value ds = foldl (\<lambda>acc c. 10 * acc + (int (of_char c) - 48)) 0 ds"

definition int_of_string :: "string \<Rightarrow> py_error + int" where
  "int_of_string s =
     (let t = strip s;
          neg = (t \<noteq> [] \<and> hd t = CHR ''-'');
          ds = (if t \<noteq> [] \<and> (hd t = CHR ''-'' \<or> hd t = CHR ''+'') then tl t else t)
      in if ds = [] \<or> \<not> list_all is_digit ds then Inl ValueError
         else Inr (if neg then - digits_value ds else digits_value ds))"

text \<open>\<^verbatim>\<open>xs.index(x)\<close>: the position of the first occurrence, \<^verbatim>\<open>ValueError\<close> when absent.\<close>

fun index_from :: "nat \<Rightarrow> 'a list \<Rightarrow> 'a \<Rightarrow> py_error + nat" where
  "index_from k [] x = Inl ValueError"
| "index_from k (y # ys) x = (if y = x then Inr k else index_from (Suc k) ys x)"

definition index :: "'a list \<Rightarrow> 'a \<Rightarrow> py_error + nat" where
  "index xs x = index_from 0 xs x"

section \<open>Configuration\<close>

text \<open>
  A \<^verbatim>\<open>ConfigParser\<close> object: sections of options. \<^verbatim>\<open>get\<close> and \<^verbatim>\<open>set\<close> raise on a
  missing section, \<^verbatim>\<open>get\<close> on a missing option.
\<close>

type_synonym config = "string \<rightharpoonup> (string \<rightharpoonup> string)"

definition config_get :: "config \<Rightarrow> string \<Rightarrow> string \<Rightarrow> py_error + string" where
  "config_get cfg section option =
     (case cfg section of
        None \<Rightarrow> Inl NoSectionError
      | Some opts \<Rightarrow> (case opts option of None \<Rightarrow> Inl NoOptionError | Some v \<Rightarrow> Inr v))"

definition config_set :: "config \<Rightarrow> string \<Rightarrow> string \<Rightarrow> string \<Rightarrow> py_error + config" where
  "config_set cfg section option v =
     (case cfg section of
        None \<Rightarrow> Inl NoSectionError
      | Some opts \<Rightarrow> Inr (cfg(section \<mapsto> opts(option \<mapsto> v))))"

text \<open>
  The names bound when \<^verbatim>\<open>generate_input\<close> runs line 291: its locals \<^verbatim>\<open>args\<close> and
  \<^verbatim>\<open>config\<close>, and the names bound at module level (imports, constants, functions).
  Only \<^verbatim>\<open>MAX_RANK\<close> holds a string. A name that is not bound raises \<^verbatim>\<open>NameError\<close>;
  an object that is not a string has no \<^verbatim>\<open>lower\<close> for \<^verbatim>\<open>ConfigParser.get\<close>.
\<close>

definition module_names :: "string list" where
  "module_names =
     [''sys'', ''os'', ''urllib2'', ''gzip'', ''biom'', ''shutil'', ''np_rand'', ''NCBITaxa'',
      ''logger'', ''ConfigParser'', ''ncbi'', ''RANKS'', ''MAX_RANK'', ''_log'',
      ''read_taxonomic_profile'', ''read_genomes_list'', ''get_genomes_per_rank'',
      ''transform_lineage'', ''map_otus_to_genomes'', ''split_by_N'', ''download_genome'',
      ''write_config'', ''fill_up'', ''generate_input'']"

definition bound_names :: "string list" where
  "bound_names = [''args'', ''config''] @ module_names"

definition eval_option_name :: "string \<Rightarrow> py_error + string" where
  "eval_option_name n =
     (if n \<notin> set bound_names then Inl NameError
      else if n = ''MAX_RANK'' then Inr ''family''
      else Inl AttributeError)"

text \<open>
  Lines 290-294 of \<^verbatim>\<open>generate_input\<close>:
  \<^verbatim>\<open>try: max_strains = int(config.get("Main", max_strains_per_otu))\<close>
  \<^verbatim>\<open>except: max_strains = 3; _log.warning(...)\<close>.
  The option is written as the name \<^verbatim>\<open>max_strains_per_otu\<close>, not as a string literal.
  The result is the value of \<^verbatim>\<open>max_strains\<close> and the warnings logged.
\<close>

definition generate_input_max_strains :: "config \<Rightarrow> int \<times> string list" where
  "generate_input_max_strains cfg =
     (case (case eval_option_name ''max_strains_per_otu'' of
              Inl e \<Rightarrow> Inl e
            | Inr opt \<Rightarrow> (case config_get cfg ''Main'' opt of
                           Inl e \<Rightarrow> Inl e
                         | Inr v \<Rightarrow> int_of_string v)) of
        Inr n \<Rightarrow> (n, [])
      | Inl e \<Rightarrow> (3, [''Max strains per OTU not set, using default (3)'']))"

section \<open>Reading the abundance profile\<close>

text \<open>
  The BIOM table as \<^verbatim>\<open>read_taxonomic_profile\<close> uses it: the observation (OTU) ids, the
  sample ids, the taxonomy metadata of an observation (a string, or already a list, on
  which \<^verbatim>\<open>split\<close> raises the \<^verbatim>\<open>AttributeError\<close> the code passes over) and the value
  of an observation in a sample.
\<close>

datatype taxonomy_field = TaxString string | TaxList "string list"

record biom_table =
  observation_ids :: "string list"
  sample_ids :: "string list"
  taxonomy_of :: "string \<rightharpoonup> taxonomy_field"
  get_value_by_ids :: "string \<Rightarrow> string \<Rightarrow> real"

type_synonym profile = "(string \<times> (string list \<times> real list)) list"

text \<open>\<^verbatim>\<open>xs[:n]\<close>: a negative \<open>n\<close> counts from the end.\<close>

definition slice_to :: "'a list \<Rightarrow> int \<Rightarrow> 'a list" where
  "slice_to xs n = (if 0 \<le> n then take (nat n) xs else take (nat (int (length xs) + n)) xs)"

text \<open>Lines 30-37: the sample count after the default and the clamp, with the warnings.\<close>

definition adjust_no_samples :: "nat \<Rightarrow> int option \<Rightarrow> int \<times> string list" where
  "adjust_no_samples len no_samples =
     (let n = (case no_samples of None \<Rightarrow> int len | Some k \<Rightarrow> k)
      in if n \<noteq> int len \<and> n \<noteq> 1
         then (let n' = (if n > int len then int len else n)
               in (n', [''Number of samples ('' @ str n
                          @ '') does not match number of samples in biom file (''
                          @ str (int len) @ '')'',
                        ''Using the first '' @ str n' @ '' samples'']))
         else (n, []))"

text \<open>Lines 41-50: the loop over the observations.\<close>

fun read_otus :: "biom_table \<Rightarrow> int \<Rightarrow> string list \<Rightarrow> profile \<Rightarrow> py_error + profile" where
  "read_otus table no_samples [] prof = Inr prof"
| "read_otus table no_samples (otu # ids) prof =
     (case taxonomy_of table otu of
        None \<Rightarrow> Inl KeyError
      | Some tax \<Rightarrow>
          (let lineage = (case tax of TaxString s \<Rightarrow> split_char (CHR '';'') [] s | TaxList l \<Rightarrow> l);
               abundances = map (get_value_by_ids table otu) (slice_to (sample_ids table) no_samples)
           in read_otus table no_samples ids (AList.update otu (lineage, abundances) prof)))"

definition read_taxonomic_profile ::
  "biom_table \<Rightarrow> config \<Rightarrow> int option \<Rightarrow> py_error + (config \<times> string list \<times> profile)" where
  "read_taxonomic_profile table cfg no_samples =
     (let (n, warnings) = adjust_no_samples (length (sample_ids table)) no_samples
      in case config_set cfg ''Main'' ''number_of_samples'' (str n) of
           Inl e \<Rightarrow> Inl e
         | Inr cfg' \<Rightarrow>
             (case read_otus table n (observation_ids table) [] of
                Inl e \<Rightarrow> Inl e
              | Inr prof \<Rightarrow> Inr (cfg', warnings, prof)))"

section \<open>Reading the genome lists\<close>

type_synonym genomes_map = "(string \<times> (string \<times> string list)) list"

text \<open>\<^verbatim>\<open>ncbi_id, sci_name, ftp = line.strip().split('\t')\<close>: exactly three fields.\<close>

definition split_line :: "string \<Rightarrow> string list" where
  "split_line line = split_char (CHR 0x09) [] (strip line)"

definition parse_line :: "string \<Rightarrow> py_error + (string \<times> string \<times> string)" where
  "parse_line line =
     (case split_line line of [a, b, c] \<Rightarrow> Inr (a, b, c) | _ \<Rightarrow> Inl ValueError)"

text \<open>Lines 67-70 and 75-78: append to the locations of a known id, or start a new entry.\<close>

definition add_location :: "string \<Rightarrow> string \<Rightarrow> string \<Rightarrow> genomes_map \<Rightarrow> genomes_map" where
  "add_location ncbi_id sci_name loc gm =
     AList.update ncbi_id
       (case map_of gm ncbi_id of
          Some (n, locs) \<Rightarrow> (n, locs @ [loc])
        | None \<Rightarrow> (sci_name, [loc])) gm"

fun read_primary :: "string list \<Rightarrow> genomes_map \<Rightarrow> py_error + genomes_map" where
  "read_primary [] gm = Inr gm"
| "read_primary (line # ls) gm =
     (case parse_line line of
        Inl e \<Rightarrow> Inl e
      | Inr (ncbi_id, sci_name, ftp) \<Rightarrow>
          read_primary ls (add_location ncbi_id sci_name (str_replace ''ftp://'' ''http://'' ftp) gm))"

fun read_additional :: "string list \<Rightarrow> genomes_map \<Rightarrow> py_error + genomes_map" where
  "read_additional [] gm = Inr gm"
| "read_additional (line # ls) gm =
     (case parse_line line of
        Inl e \<Rightarrow> Inl e
      | Inr (ncbi_id, sci_name, path) \<Rightarrow>
          read_additional ls (add_location ncbi_id sci_name path gm))"

text \<open>The two files are given as their lines.\<close>

definition read_genomes_list :: "string list \<Rightarrow> string list option \<Rightarrow> py_error + genomes_map" where
  "read_genomes_list genomes additional_file =
     (case read_primary genomes [] of
        Inl e \<Rightarrow> Inl e
      | Inr gm \<Rightarrow>
          (case additional_file of None \<Rightarrow> Inr gm | Some add \<Rightarrow> read_additional add gm))"

text \<open>
  For the statements: the locations that the lines of a file give for an id, and the
  locations stored for an id in the result.
\<close>

definition locations_in :: "string \<Rightarrow> string list \<Rightarrow> string list" where
  "locations_in ncbi_id ls =
     map (\<lambda>l. split_line l ! 2) (filter (\<lambda>l. split_line l ! 0 = ncbi_id) ls)"

definition locs_of :: "genomes_map \<Rightarrow> string \<Rightarrow> string list" where
  "locs_of gm i = (case map_of gm i of None \<Rightarrow> [] | Some (n, locs) \<Rightarrow> locs)"

section \<open>The taxonomy database\<close>

text \<open>
  The \<^verbatim>\<open>NCBITaxa\<close> object of the ete2 library is outside the repository; the model takes
  its tables as a parameter. \<^verbatim>\<open>get_lineage\<close> raises \<^verbatim>\<open>ValueError\<close> for an id it does
  not know; \<^verbatim>\<open>get_rank\<close> and \<^verbatim>\<open>get_name_translator\<close> return a dictionary whose keys
  are among the ids or names they were asked about.
\<close>

record taxonomy_db =
  lineage_of :: "string \<rightharpoonup> int list"
  rank_of :: "int \<rightharpoonup> string"
  name_to_ids :: "string \<rightharpoonup> int list"

definition get_lineage :: "taxonomy_db \<Rightarrow> string \<Rightarrow> py_error + int list" where
  "get_lineage db genome =
     (case lineage_of db genome of None \<Rightarrow> Inl ValueError | Some l \<Rightarrow> Inr l)"

definition get_rank :: "taxonomy_db \<Rightarrow> int list \<Rightarrow> (int \<rightharpoonup> string)" where
  "get_rank db ids = (\<lambda>t. if t \<in> set ids then rank_of db t else None)"

definition get_name_translator :: "taxonomy_db \<Rightarrow> string list \<Rightarrow> (string \<rightharpoonup> int list)" where
  "get_name_translator db names = (\<lambda>n. if n \<in> set names then name_to_ids db n else None)"

definition RANKS :: "string list" where
  "RANKS = [''species'', ''genus'', ''family'', ''order'', ''class'', ''phylum'', ''superkingdom'']"

definition MAX_RANK :: string where
  "MAX_RANK = ''family''"

section \<open>The rank index\<close>

type_synonym genome_ref = "string \<times> string"
type_synonym rank_index = "string \<rightharpoonup> (int \<rightharpoonup> genome_ref list)"

text \<open>Lines 86-89: one empty bucket map for every rank up to the maximum rank.\<close>

fun init_per_rank_map ::
  "string list \<Rightarrow> string \<Rightarrow> string list \<Rightarrow> rank_index \<Rightarrow> py_error + rank_index" where
  "init_per_rank_map ranks max_rank [] prm = Inr prm"
| "init_per_rank_map ranks max_rank (rank # rs) prm =
     (case index ranks rank of
        Inl e \<Rightarrow> Inl e
      | Inr i \<Rightarrow>
          (case index ranks max_rank of
             Inl e \<Rightarrow> Inl e
           | Inr j \<Rightarrow>
               if i > j then Inr prm
               else init_per_rank_map ranks max_rank rs (prm(rank \<mapsto> Map.empty))))"

text \<open>
  Lines 94-99, the body of the loop over a lineage: the genome (with its first location)
  is appended to the bucket of the ancestor when the ancestor's rank is a key of the
  index.
\<close>

definition index_taxid ::
  "(int \<rightharpoonup> string) \<Rightarrow> string \<Rightarrow> string list \<Rightarrow> int \<Rightarrow> rank_index \<Rightarrow> py_error + rank_index" where
  "index_taxid rks genome locs tax_id prm =
     (case rks tax_id of
        None \<Rightarrow> Inl KeyError
      | Some r \<Rightarrow>
          (case prm r of
             None \<Rightarrow> Inr prm
           | Some rank_map \<Rightarrow>
               (case locs of
                  [] \<Rightarrow> Inl IndexError
                | loc # _ \<Rightarrow>
                    Inr (prm(r \<mapsto> rank_map(tax_id \<mapsto>
                           (case rank_map tax_id of
                              Some bucket \<Rightarrow> bucket @ [(loc, genome)]
                            | None \<Rightarrow> [(loc, genome)])))))))"

fun index_lineage ::
  "(int \<rightharpoonup> string) \<Rightarrow> string \<Rightarrow> string list \<Rightarrow> int list \<Rightarrow> rank_index \<Rightarrow> py_error + rank_index" where
  "index_lineage rks genome locs [] prm = Inr prm"
| "index_lineage rks genome locs (tax_id # lineage) prm =
     (case index_taxid rks genome locs tax_id prm of
        Inl e \<Rightarrow> Inl e
      | Inr prm' \<Rightarrow> index_lineage rks genome locs lineage prm')"

fun index_genomes :: "taxonomy_db \<Rightarrow> genomes_map \<Rightarrow> rank_index \<Rightarrow> py_error + rank_index" where
  "index_genomes db [] prm = Inr prm"
| "index_genomes db ((genome, (sci_name, locs)) # gm) prm =
     (case get_lineage db genome of
        Inl e \<Rightarrow> Inl e
      | Inr lineage \<Rightarrow>
          (case index_lineage (get_rank db lineage) genome locs lineage prm of
             Inl e \<Rightarrow> Inl e
           | Inr prm' \<Rightarrow> index_genomes db gm prm'))"

definition get_genomes_per_rank ::
  "taxonomy_db \<Rightarrow> genomes_map \<Rightarrow> string list \<Rightarrow> string \<Rightarrow> py_error + rank_index" where
  "get_genomes_per_rank db genomes_map ranks max_rank =
     (case init_per_rank_map ranks max_rank ranks Map.empty of
        Inl e \<Rightarrow> Inl e
      | Inr prm \<Rightarrow> index_genomes db genomes_map prm)"

text \<open>For the statements: a rank whose position in \<open>ranks\<close> is at most that of the maximum rank.\<close>

definition up_to_max_rank :: "string list \<Rightarrow> string \<Rightarrow> string \<Rightarrow> bool" where
  "up_to_max_rank ranks max_rank r =
     (case (index ranks r, index ranks max_rank) of (Inr i, Inr j) \<Rightarrow> i \<le> j | _ \<Rightarrow> False)"

section \<open>Normalizing a lineage\<close>

text \<open>
  Lines 113-115 and 119-121: the first id of the name, kept when its rank is recognized.
\<close>

definition keep_taxid ::
  "taxonomy_db \<Rightarrow> string list \<Rightarrow> int list \<Rightarrow> int list \<Rightarrow> py_error + int list" where
  "keep_taxid db ranks ids new_lineage =
     (case ids of
        [] \<Rightarrow> Inl IndexError
      | taxid # _ \<Rightarrow>
          (case get_rank db [taxid] taxid of
             None \<Rightarrow> Inl KeyError
           | Some r \<Rightarrow> Inr (if r \<in> set ranks then new_lineage @ [taxid] else new_lineage)))"

text \<open>
  The loop of lines 107-121. \<open>mapping\<close> is computed once, from the whole name; the
  \<^verbatim>\<open>else\<close> branch looks the first word up in that same dictionary.
\<close>

fun transform_members ::
  "taxonomy_db \<Rightarrow> string list \<Rightarrow> string list \<Rightarrow> int list \<Rightarrow> py_error + int list" where
  "transform_members db ranks [] new_lineage = Inr new_lineage"
| "transform_members db ranks (member # lineage) new_lineage =
     (let name = last (split_dunder [] member)
      in if length name = 0 then transform_members db ranks lineage new_lineage
         else
           (let mapping = get_name_translator db [name]
            in case mapping name of
                 Some ids \<Rightarrow>
                   (case keep_taxid db ranks ids new_lineage of
                      Inl e \<Rightarrow> Inl e
                    | Inr nl \<Rightarrow> transform_members db ranks lineage nl)
               | None \<Rightarrow>
                   (case split_ws [] name of
                      [] \<Rightarrow> Inl IndexError
                    | word # _ \<Rightarrow>
                        (case mapping word of
                           Some ids \<Rightarrow>
                             (case keep_taxid db ranks ids new_lineage of
                                Inl e \<Rightarrow> Inl e
                              | Inr nl \<Rightarrow> transform_members db ranks lineage nl)
                         | None \<Rightarrow> transform_members db ranks lineage new_lineage))))"

definition transform_lineage ::
  "taxonomy_db \<Rightarrow> string list \<Rightarrow> string list \<Rightarrow> string \<Rightarrow> py_error + int list" where
  "transform_lineage db lineage ranks max_rank =
     (case transform_members db ranks lineage [] of
        Inl e \<Rightarrow> Inl e
      | Inr new_lineage \<Rightarrow> Inr (rev new_lineage))"

section \<open>The genome assignment engine\<close>

text \<open>
  An assignment record is the tuple \<^verbatim>\<open>(tax_id, genome_id, path, abundances)\<close> that
  \<^verbatim>\<open>otu_genome_map\<close> holds for a strain id.
\<close>

type_synonym assignment = "int \<times> string \<times> string \<times> real list"
type_synonym otu_genome_map = "string \<rightharpoonup> assignment"

datatype warning =
    NoMatchingNcbiId string string
  | RankTooHigh string string
  | FullLineage "int list" "string list"
  | NoGenomesFound string string int

text \<open>
  The generator \<^verbatim>\<open>numpy.random\<close> is outside the repository: the model takes its three
  operations as a parameter, each from a generator state to a result and the next state.
  \<^verbatim>\<open>geometric(p)\<close> gives an integer, \<^verbatim>\<open>choice(n, k, replace=False)\<close> a list of indices,
  \<^verbatim>\<open>lognormal(mu, sigma, n)\<close> a list of values. What the theorems need of their results
  (\<open>k\<close> indices, \<open>n\<close> positive values) is a hypothesis there. Of numpy's checks of the
  arguments the model has the one on the probability of \<^verbatim>\<open>geometric\<close>, which depends on
  \<^verbatim>\<open>max_strains\<close>.
\<close>

record 'g np_rand =
  geometric :: "real \<Rightarrow> 'g \<Rightarrow> int \<times> 'g"
  choice :: "nat \<Rightarrow> nat \<Rightarrow> 'g \<Rightarrow> nat list \<times> 'g"
  lognormal :: "real \<Rightarrow> real \<Rightarrow> nat \<Rightarrow> 'g \<Rightarrow> real list \<times> 'g"

text \<open>
  The parameters that \<^verbatim>\<open>map_otus_to_genomes\<close> hands down unchanged. Abundances and
  weights are Python floats: a value is a real number, and the result of an arithmetic
  operation is the exact result rounded by \<open>p_fl\<close>, a parameter of the model (rounding to
  the nearest double has relative error at most \<open>2 ^ -53\<close> away from overflow and
  underflow; the identity gives exact arithmetic).
\<close>

record 'g engine =
  p_fl :: "real \<Rightarrow> real"
  p_rng :: "'g np_rand"
  p_db :: taxonomy_db
  p_ranks :: "string list"
  p_max_rank :: string
  p_mu :: real
  p_sigma :: real
  p_max_strains :: int
  p_replace :: bool

text \<open>What the loop over the OTUs changes: the three dictionaries and lists, and the generator.\<close>

record 'g engine_state =
  otu_genome_map :: otu_genome_map
  warnings :: "warning list"
  per_rank_map :: rank_index
  rng_state :: 'g

text \<open>
  Lines 165-168: the genome is removed (its first occurrence) from every bucket of every
  rank that holds it.
\<close>

definition remove_genome :: "genome_ref \<Rightarrow> rank_index \<Rightarrow> rank_index" where
  "remove_genome p prm =
     (\<lambda>new_rank. case prm new_rank of
        None \<Rightarrow> None
      | Some rank_map \<Rightarrow>
          Some (\<lambda>taxid. case rank_map taxid of
                  None \<Rightarrow> None
                | Some bucket \<Rightarrow> Some (if p \<in> set bucket then remove1 p bucket else bucket)))"

text \<open>Line 157: \<^verbatim>\<open>otu_id = otu + "." + str(i)\<close>.\<close>

definition otu_id :: "string \<Rightarrow> nat \<Rightarrow> string" where
  "otu_id otu i = otu @ ''.'' @ str (int i)"

text \<open>Line 154: \<^verbatim>\<open>sum\<close> adds from the left, starting at 0.\<close>

definition sum_floats :: "(real \<Rightarrow> real) \<Rightarrow> real list \<Rightarrow> real" where
  "sum_floats rnd vals = foldl (\<lambda>acc v. rnd (acc + v)) 0 vals"

text \<open>
  Lines 156-168, the loop over the used genomes: strain \<open>i\<close> gets the weight
  \<^verbatim>\<open>log_normal_vals[i]/sum_log_normal\<close> of every abundance of the OTU.
\<close>

fun assign_strains ::
  "'g engine \<Rightarrow> string \<Rightarrow> int \<Rightarrow> real list \<Rightarrow> real list \<Rightarrow> real \<Rightarrow> nat \<Rightarrow> genome_ref list
     \<Rightarrow> otu_genome_map \<Rightarrow> rank_index \<Rightarrow> py_error + (otu_genome_map \<times> rank_index)" where
  "assign_strains E otu tax_id abundances log_normal_vals sum_log_normal i [] ogm prm =
     Inr (ogm, prm)"
| "assign_strains E otu tax_id abundances log_normal_vals sum_log_normal i
     ((path, genome_id) # used_genomes) ogm prm =
     (if length log_normal_vals \<le> i then Inl IndexError
      else
        (let relative_abundance = p_fl E (log_normal_vals ! i / sum_log_normal);
             ogm' = ogm(otu_id otu i \<mapsto>
                      (tax_id, genome_id, path,
                       map (\<lambda>abundance. p_fl E (relative_abundance * abundance)) abundances));
             prm' = (if \<not> p_replace E then remove_genome (path, genome_id) prm else prm)
         in assign_strains E otu tax_id abundances log_normal_vals sum_log_normal (Suc i)
              used_genomes ogm' prm'))"

text \<open>
  Line 147: \<^verbatim>\<open>max((np_rand.geometric(2./max_strains) % max_strains), 1)\<close>. The division
  raises for \<open>max_strains = 0\<close>, and numpy raises for a probability outside \<open>[0, 1]\<close>.
\<close>

definition strains_to_draw :: "'g engine \<Rightarrow> 'g \<Rightarrow> py_error + (int \<times> 'g)" where
  "strains_to_draw E g =
     (if p_max_strains E = 0 then Inl ZeroDivisionError
      else
        (let p = 2 / real_of_int (p_max_strains E)
         in if p < 0 \<or> 1 < p then Inl ValueError
            else (let (k, g') = geometric (p_rng E) p g
                  in Inr (max (k mod p_max_strains E) 1, g'))))"

text \<open>
  Lines 148-152: the genomes used. A Python set keeps one copy of each element; its
  iteration order is not specified, the model takes the order of \<open>remdups\<close>.
\<close>

definition draw_genomes ::
  "'g engine \<Rightarrow> genome_ref list \<Rightarrow> 'g \<Rightarrow> py_error + (genome_ref list \<times> 'g)" where
  "draw_genomes E available_genomes g =
     (case strains_to_draw E g of
        Inl e \<Rightarrow> Inl e
      | Inr (n, g1) \<Rightarrow>
          if int (length available_genomes) \<ge> n
          then (let (used_indices, g2) = choice (p_rng E) (length available_genomes) (nat n) g1
                in if list_all (\<lambda>i. i < length available_genomes) used_indices
                   then Inr (remdups (map (nth available_genomes) used_indices), g2)
                   else Inl IndexError)
          else Inr (remdups available_genomes, g1))"

text \<open>Lines 146-169: the draw, the weights and the assignment for the bucket found.\<close>

definition assign_genomes ::
  "'g engine \<Rightarrow> string \<Rightarrow> int \<Rightarrow> real list \<Rightarrow> genome_ref list \<Rightarrow> 'g engine_state
     \<Rightarrow> py_error + 'g engine_state" where
  "assign_genomes E otu tax_id abundances available_genomes st =
     (case draw_genomes E available_genomes (rng_state st) of
        Inl e \<Rightarrow> Inl e
      | Inr (used_genomes, g1) \<Rightarrow>
          (let (log_normal_vals, g2) = lognormal (p_rng E) (p_mu E) (p_sigma E) (length used_genomes) g1;
               sum_log_normal = sum_floats (p_fl E) log_normal_vals
           in case assign_strains E otu tax_id abundances log_normal_vals sum_log_normal 0
                     used_genomes (otu_genome_map st) (per_rank_map st) of
                Inl e \<Rightarrow> Inl e
              | Inr (ogm, prm) \<Rightarrow>
                  Inr (st\<lparr>otu_genome_map := ogm, per_rank_map := prm, rng_state := g2\<rparr>)))"

text \<open>
  Lines 136-169, the walk up the lineage: it stops at a rank above the maximum rank, goes
  on when the index has no bucket for the id, and assigns from the first bucket it finds.
\<close>

fun walk_lineage ::
  "'g engine \<Rightarrow> string \<Rightarrow> string list \<Rightarrow> real list \<Rightarrow> (int \<rightharpoonup> string) \<Rightarrow> int list \<Rightarrow> int list
     \<Rightarrow> 'g engine_state \<Rightarrow> py_error + 'g engine_state" where
  "walk_lineage E otu lin abundances lineage_ranks lineage [] st = Inr st"
| "walk_lineage E otu lin abundances lineage_ranks lineage (tax_id # rest) st =
     (case lineage_ranks tax_id of
        None \<Rightarrow> Inl KeyError
      | Some rank \<Rightarrow>
          (case index (p_ranks E) rank of
             Inl e \<Rightarrow> Inl e
           | Inr i \<Rightarrow>
               (case index (p_ranks E) (p_max_rank E) of
                  Inl e \<Rightarrow> Inl e
                | Inr j \<Rightarrow>
                    if i > j
                    then Inr (st\<lparr>warnings := warnings st
                                  @ [RankTooHigh rank otu, FullLineage lineage lin]\<rparr>)
                    else
                      (case per_rank_map st rank of
                         None \<Rightarrow> Inl KeyError
                       | Some genomes \<Rightarrow>
                           (case genomes tax_id of
                              None \<Rightarrow>
                                walk_lineage E otu lin abundances lineage_ranks lineage rest
                                  (st\<lparr>warnings := warnings st
                                        @ [NoGenomesFound otu rank tax_id]\<rparr>)
                            | Some available_genomes \<Rightarrow>
                                assign_genomes E otu tax_id abundances available_genomes st)))))"

text \<open>Lines 131-169, the body of the loop over the OTUs.\<close>

definition process_otu ::
  "'g engine \<Rightarrow> string \<times> (string list \<times> real list) \<Rightarrow> 'g engine_state
     \<Rightarrow> py_error + 'g engine_state" where
  "process_otu E entry st =
     (case entry of (otu, (lin, abundances)) \<Rightarrow>
        (case transform_lineage (p_db E) lin (p_ranks E) (p_max_rank E) of
           Inl e \<Rightarrow> Inl e
         | Inr lineage \<Rightarrow>
             (case (if length lineage = 0
                    then (case lin of
                            [] \<Rightarrow> Inl IndexError
                          | _ \<Rightarrow> Inr (st\<lparr>warnings := warnings st
                                   @ [NoMatchingNcbiId otu (last (split_dunder [] (last lin)))]\<rparr>))
                    else Inr st) of
                Inl e \<Rightarrow> Inl e
              | Inr st1 \<Rightarrow>
                  walk_lineage E otu lin abundances (get_rank (p_db E) lineage) lineage lineage st1)))"

fun process_otus ::
  "'g engine \<Rightarrow> profile \<Rightarrow> 'g engine_state \<Rightarrow> py_error + 'g engine_state" where
  "process_otus E [] st = Inr st"
| "process_otus E (entry # prof) st =
     (case process_otu E entry st of
        Inl e \<Rightarrow> Inl e
      | Inr st' \<Rightarrow> process_otus E prof st')"

datatype log_entry = SomeOtusNotMapped | Detail warning

text \<open>
  \<^verbatim>\<open>map_otus_to_genomes\<close>: the profile is the list of its entries in iteration order.
  The result is the state after the loop (the function returns its \<open>otu_genome_map\<close>,
  and has changed \<open>per_rank_map\<close> in place) and what lines 170-174 log.
\<close>

definition map_otus_to_genomes ::
  "(real \<Rightarrow> real) \<Rightarrow> 'g np_rand \<Rightarrow> taxonomy_db \<Rightarrow> profile \<Rightarrow> rank_index \<Rightarrow> string list \<Rightarrow> string
     \<Rightarrow> real \<Rightarrow> real \<Rightarrow> int \<Rightarrow> bool \<Rightarrow> bool \<Rightarrow> bool \<Rightarrow> 'g
     \<Rightarrow> py_error + ('g engine_state \<times> log_entry list)" where
  "map_otus_to_genomes rnd gen taxa prof prm rks max_rk m s max_str debug replace fillup g =
     (case process_otus
             \<lparr>p_fl = rnd, p_rng = gen, p_db = taxa, p_ranks = rks, p_max_rank = max_rk, p_mu = m,
              p_sigma = s, p_max_strains = max_str, p_replace = replace\<rparr>
             prof
             \<lparr>otu_genome_map = Map.empty, warnings = [], per_rank_map = prm, rng_state = g\<rparr> of
        Inl e \<Rightarrow> Inl e
      | Inr st \<Rightarrow>
          Inr (st, if length (warnings st) > 0
                   then SomeOtusNotMapped # (if debug then map Detail (warnings st) else [])
                   else []))"

text \<open>
  For the statements: the genome of an assignment record, the strain ids of an OTU in an
  \<open>otu_genome_map\<close>, and the bucket at which the walk of lines 136-145 over a lineage
  arrives in a rank index (none when the lineage ends or a rank is above the maximum
  rank first).
\<close>

definition genome_of :: "assignment \<Rightarrow> genome_ref" where
  "genome_of a = (case a of (tax_id, genome_id, path, abundances) \<Rightarrow> (path, genome_id))"


definition strain_ids :: "otu_genome_map \<Rightarrow> string \<Rightarrow> string set" where
  "strain_ids ogm otu = {k \<in> dom ogm. \<exists>i. k = otu_id otu i}"

fun found_genomes ::
  "string list \<Rightarrow> string \<Rightarrow> rank_index \<Rightarrow> (int \<rightharpoonup> string) \<Rightarrow> int list
     \<Rightarrow> (int \<times> genome_ref list) option" where
  "found_genomes rks max_rk prm lineage_ranks [] = None"
| "found_genomes rks max_rk prm lineage_ranks (tax_id # rest) =
     (case lineage_ranks tax_id of
        None \<Rightarrow> None
      | Some rank \<Rightarrow>
          (case (index rks rank, index rks max_rk) of
             (Inr i, Inr j) \<Rightarrow>
               if i > j then None
               else (case prm rank of
                       None \<Rightarrow> None
                     | Some genomes \<Rightarrow>
                         (case genomes tax_id of
                            None \<Rightarrow> found_genomes rks max_rk prm lineage_ranks rest
                          | Some available_genomes \<Rightarrow> Some (tax_id, available_genomes)))
           | _ \<Rightarrow> None))"

definition found_for ::
  "taxonomy_db \<Rightarrow> string list \<Rightarrow> string \<Rightarrow> rank_index \<Rightarrow> string list
     \<Rightarrow> (int \<times> genome_ref list) option" where
  "found_for taxa rks max_rk prm lin =
     (case transform_lineage taxa lin rks max_rk of
        Inl e \<Rightarrow> None
      | Inr lineage \<Rightarrow> found_genomes rks max_rk prm (get_rank taxa lineage) lineage)"

definition genomes_used :: "otu_genome_map \<Rightarrow> string \<Rightarrow> genome_ref set" where
  "genomes_used ogm otu = {genome_of a | k a. k \<in> strain_ids ogm otu \<and> ogm k = Some a}"

text \<open>
  For the statements: a genome is in the index when some bucket holds it; the index
  lists every genome once when no bucket holds a genome twice; the genomes of the
  records of an \<open>otu_genome_map\<close>; and records that do not share a genome.
\<close>

definition in_index :: "genome_ref \<Rightarrow> rank_index \<Rightarrow> bool" where
  "in_index p prm = (\<exists>r rank_map t bucket. prm r = Some rank_map \<and> rank_map t = Some bucket
                       \<and> p \<in> set bucket)"

definition listed_once :: "rank_index \<Rightarrow> bool" where
  "listed_once prm = (\<forall>r rank_map t bucket. prm r = Some rank_map \<longrightarrow> rank_map t = Some bucket
                        \<longrightarrow> distinct bucket)"

definition assigned_genomes :: "otu_genome_map \<Rightarrow> genome_ref set" where
  "assigned_genomes ogm = genome_of ` ran ogm"

definition no_genome_twice :: "otu_genome_map \<Rightarrow> bool" where
  "no_genome_twice ogm = (\<forall>k k' a a'. ogm k = Some a \<longrightarrow> ogm k' = Some a' \<longrightarrow> k \<noteq> k'
                            \<longrightarrow> genome_of a \<noteq> genome_of a')"

text \<open>The three facts about a state that every step of the engine keeps when genomes are
  removed on use, and the fact about a single genome that the catalog builder keeps while
  it indexes it: only the buckets of the ids in \<open>D\<close> hold it.\<close>

definition no_reuse :: "'g engine_state \<Rightarrow> bool" where
  "no_reuse st =
     (listed_once (per_rank_map st)
      \<and> (\<forall>p \<in> assigned_genomes (otu_genome_map st). \<not> in_index p (per_rank_map st))
      \<and> no_genome_twice (otu_genome_map st))"

definition genome_only_at :: "string \<Rightarrow> int set \<Rightarrow> rank_index \<Rightarrow> bool" where
  "genome_only_at genome D prm =
     (\<forall>r rank_map t bucket loc. prm r = Some rank_map \<longrightarrow> rank_map t = Some bucket
        \<longrightarrow> (loc, genome) \<in> set bucket \<longrightarrow> t \<in> D)"

section \<open>Fill-up\<close>

text \<open>
  \<^verbatim>\<open>fill_up\<close>, line 267: \<^verbatim>\<open>per_rank_map[new_rank][taxid].remove((path,genome_id))\<close> is
  the second statement of the function. \<^verbatim>\<open>new_rank\<close> is assigned neither in the
  function nor at module level, so its evaluation raises \<^verbatim>\<open>NameError\<close>; were it bound
  at module level, \<^verbatim>\<open>taxid\<close>, a local of the function that is assigned only at line 270,
  would raise \<^verbatim>\<open>UnboundLocalError\<close>. No statement after line 267 is reached, whatever
  the arguments.
\<close>

definition fill_up ::
  "otu_genome_map \<Rightarrow> rank_index \<Rightarrow> profile \<Rightarrow> py_error + (otu_genome_map \<times> rank_index)" where
  "fill_up ogm prm tax_profile =
     (if ''new_rank'' \<in> set module_names then Inl UnboundLocalError else Inl NameError)"

section \<open>The output writer\<close>

text \<open>\<^verbatim>\<open>os.path.join\<close> of two components, \<^verbatim>\<open>s.rstrip()\<close> and \<^verbatim>\<open>s.startswith(p)\<close>.\<close>

definition path_join :: "string \<Rightarrow> string \<Rightarrow> string" where
  "path_join a b =
     (if b \<noteq> [] \<and> hd b = CHR ''/'' then b
      else if a = [] \<or> last a = CHR ''/'' then a @ b
      else a @ ''/'' @ b)"

definition rstrip :: "string \<Rightarrow> string" where
  "rstrip s = rev (dropWhile is_space (rev s))"

definition startswith :: "string \<Rightarrow> string \<Rightarrow> bool" where
  "startswith s p = (take (length p) s = p)"

text \<open>
  The files that \<^verbatim>\<open>write_config\<close> writes, as their rows, and the errors it logs. The
  model starts from empty files.
\<close>

record output_files =
  genome_to_id :: "(string \<times> string) list"
  metadata :: "string list list"
  abundance_files :: "(string \<times> real) list list"
  error_log :: "string list"

text \<open>
  Lines 229-234, one attempt. Downloading and copying are outside the model: \<open>fails otu k\<close>
  says whether attempt \<open>k\<close> for the record \<open>otu\<close> raises. An attempt that does not raise
  gives the path of the local genome file.
\<close>

definition attempt ::
  "(string \<Rightarrow> nat \<Rightarrow> bool) \<Rightarrow> string \<Rightarrow> string \<Rightarrow> string \<Rightarrow> nat \<Rightarrow> string option" where
  "attempt fails out_path otu path counter =
     (if fails otu counter then None
      else
        (let out_name = last (split_char (CHR ''/'') [] (rstrip path));
             create_path = path_join out_path ''genomes''
         in if startswith path ''http'' \<or> startswith path ''ftp''
            then Some (path_join create_path (out_name @ ''.fa''))
            else Some (path_join create_path out_name)))"

text \<open>Lines 226-238: \<^verbatim>\<open>while counter < 10\<close>, left at the first attempt that does not raise.\<close>

function retrieve ::
  "(string \<Rightarrow> nat \<Rightarrow> bool) \<Rightarrow> string \<Rightarrow> string \<Rightarrow> string \<Rightarrow> nat \<Rightarrow> nat \<times> string option" where
  "retrieve fails out_path otu path counter =
     (if counter < 10
      then (case attempt fails out_path otu path counter of
              Some genome_path \<Rightarrow> (counter, Some genome_path)
            | None \<Rightarrow> retrieve fails out_path otu path (counter + 1))
      else (counter, None))"
  by pat_completeness auto
termination
  by (relation "measure (\<lambda>(fails, out_path, otu, path, counter). 10 - counter)") auto

declare retrieve.simps [simp del]

text \<open>Lines 246-250: one row in the abundance file of every sample.\<close>

fun write_abundances ::
  "string \<Rightarrow> real list \<Rightarrow> nat \<Rightarrow> nat \<Rightarrow> output_files \<Rightarrow> (py_error \<times> output_files) + output_files" where
  "write_abundances otu curr_abundances i 0 files = Inr files"
| "write_abundances otu curr_abundances i (Suc k) files =
     (if length curr_abundances \<le> i then Inl (IndexError, files)
      else write_abundances otu curr_abundances (Suc i) k
             (files\<lparr>abundance_files := (abundance_files files)
                       [i := abundance_files files ! i @ [(otu, curr_abundances ! i)]]\<rparr>))"

text \<open>
  Lines 225-250, the body of the loop over the records. After ten failed attempts line
  240 logs an error and line 241 formats a second message from \<^verbatim>\<open>(otu, genome)\<close>;
  \<^verbatim>\<open>genome\<close> is bound neither in \<^verbatim>\<open>write_config\<close> nor at module level, so that
  line raises \<^verbatim>\<open>NameError\<close>, which nothing catches. An exception leaves the files as
  they are at that moment.
\<close>

definition write_record ::
  "(string \<Rightarrow> nat \<Rightarrow> bool) \<Rightarrow> string \<Rightarrow> nat \<Rightarrow> string \<times> assignment \<Rightarrow> output_files
     \<Rightarrow> (py_error \<times> output_files) + output_files" where
  "write_record fails out_path no_samples item files =
     (case item of (otu, (taxid, genome_id, path, curr_abundances)) \<Rightarrow>
        (case retrieve fails out_path otu path 0 of (counter, result) \<Rightarrow>
           if counter = 10
           then Inl (NameError,
                     files\<lparr>error_log := error_log files
                       @ [''Caught exception while moving/downloading genomes'']\<rparr>)
           else
             (case result of
                None \<Rightarrow> Inl (UnboundLocalError, files)
              | Some genome_path \<Rightarrow>
                  write_abundances otu curr_abundances 0 no_samples
                    (files\<lparr>genome_to_id := genome_to_id files @ [(otu, genome_path)],
                           metadata := metadata files
                             @ [[otu, str taxid, genome_id, ''new_strain'']]\<rparr>))))"

fun write_records ::
  "(string \<Rightarrow> nat \<Rightarrow> bool) \<Rightarrow> string \<Rightarrow> nat \<Rightarrow> (string \<times> assignment) list \<Rightarrow> output_files
     \<Rightarrow> (py_error \<times> output_files) + output_files" where
  "write_records fails out_path no_samples [] files = Inr files"
| "write_records fails out_path no_samples (item # items) files =
     (case write_record fails out_path no_samples item files of
        Inl e \<Rightarrow> Inl e
      | Inr files' \<Rightarrow> write_records fails out_path no_samples items files')"

text \<open>Lines 251-255: the names of the abundance files, separated by commas.\<close>

fun join_commas :: "string list \<Rightarrow> string" where
  "join_commas [] = []"
| "join_commas [a] = a"
| "join_commas (a # b # cs) = a @ '','' @ join_commas (b # cs)"

text \<open>
  \<^verbatim>\<open>write_config\<close>: the records are the items of \<^verbatim>\<open>otu_genome_map\<close> in iteration order.
  The result is the files, the configuration written to \<^verbatim>\<open>config.ini\<close> and its path.
\<close>

definition write_config ::
  "(string \<Rightarrow> nat \<Rightarrow> bool) \<Rightarrow> (string \<times> assignment) list \<Rightarrow> string \<Rightarrow> config
     \<Rightarrow> (py_error \<times> output_files) + (output_files \<times> config \<times> string)" where
  "write_config fails items out_path cfg =
     (let no_files = \<lparr>genome_to_id = [], metadata = [], abundance_files = [], error_log = []\<rparr>
      in case config_set cfg ''community0'' ''id_to_genome_file''
                (path_join out_path ''genome_to_id.tsv'') of
        Inl e \<Rightarrow> Inl (e, no_files)
      | Inr cfg1 \<Rightarrow>
      (let header = no_files\<lparr>metadata := [[''genome_ID'', ''OTU'', ''NCBI_ID'', ''novelty_category'']]\<rparr>
       in case config_set cfg1 ''community0'' ''metadata'' (path_join out_path ''metadata.tsv'') of
        Inl e \<Rightarrow> Inl (e, header)
      | Inr cfg2 \<Rightarrow>
      (case config_get cfg2 ''Main'' ''number_of_samples'' of
        Inl e \<Rightarrow> Inl (e, header)
      | Inr v \<Rightarrow>
      (case int_of_string v of
        Inl e \<Rightarrow> Inl (e, header)
      | Inr no_samples \<Rightarrow>
      (let abundances = map (\<lambda>i. path_join out_path (''abundance'' @ str (int i) @ ''.tsv''))
                          [0 ..< nat no_samples]
       in case write_records fails out_path (nat no_samples) items
                 (header\<lparr>abundance_files := replicate (nat no_samples) []\<rparr>) of
        Inl e \<Rightarrow> Inl e
      | Inr files \<Rightarrow>
          if abundances = [] then Inl (IndexError, files)
          else
      (case config_set cfg2 ''Main'' ''distribution_file_paths'' (join_commas abundances) of
        Inl e \<Rightarrow> Inl (e, files)
      | Inr cfg3 \<Rightarrow>
      (case config_set cfg3 ''community0'' ''num_real_genomes'' (str (int (length items))) of
        Inl e \<Rightarrow> Inl (e, files)
      | Inr cfg4 \<Rightarrow>
      (case config_set cfg4 ''community0'' ''genomes_total'' (str (int (length items))) of
        Inl e \<Rightarrow> Inl (e, files)
      | Inr cfg5 \<Rightarrow> Inr (files, cfg5, path_join out_path ''config.ini'')))))))))"

section \<open>Example inputs\<close>

definition example_table :: biom_table where
  "example_table =
     \<lparr>observation_ids = [''otu1''], sample_ids = [''s1'', ''s2'', ''s3''],
      taxonomy_of = [''otu1'' \<mapsto> TaxString ''k__Bacteria;p__Firmicutes''],
      get_value_by_ids = (\<lambda>otu s. if s = ''s1'' then 1 else if s = ''s2'' then 2 else 3)\<rparr>"

definition example_db :: taxonomy_db where
  "example_db =
     \<lparr>lineage_of = [''562'' \<mapsto> [1, 2, 1224, 1236, 91347, 543, 561, 562],
                    ''564'' \<mapsto> [1, 2, 1224, 1236, 91347, 543, 561, 564],
                    ''1280'' \<mapsto> [1, 2, 1239, 91061, 1385, 90964, 1279, 1280]],
      rank_of = [1 \<mapsto> ''no rank'', 2 \<mapsto> ''superkingdom'', 1224 \<mapsto> ''phylum'',
                 1236 \<mapsto> ''class'', 91347 \<mapsto> ''order'', 543 \<mapsto> ''family'',
                 561 \<mapsto> ''genus'', 562 \<mapsto> ''species'', 564 \<mapsto> ''species'',
                 1239 \<mapsto> ''phylum'', 91061 \<mapsto> ''class'', 1385 \<mapsto> ''order'',
                 90964 \<mapsto> ''family'', 1279 \<mapsto> ''genus'', 1280 \<mapsto> ''species''],
      name_to_ids = [''Bacteria'' \<mapsto> [2], ''Proteobacteria'' \<mapsto> [1224],
                     ''Escherichia'' \<mapsto> [561], ''Escherichia coli'' \<mapsto> [562],
                     ''Staphylococcus'' \<mapsto> [1279]]\<rparr>"

definition example_genomes :: genomes_map where
  "example_genomes =
     [(''562'', (''Escherichia coli'', [''http://host/ecoli'', ''/data/ecoli.fa''])),
      (''564'', (''Escherichia fergusonii'', [''http://host/efer''])),
      (''1280'', (''Staphylococcus aureus'', [''http://host/saureus'']))]"

definition example_index :: rank_index where
  "example_index =
     [''species'' \<mapsto> [562 \<mapsto> [(''http://host/ecoli'', ''562'')],
                       564 \<mapsto> [(''http://host/efer'', ''564'')],
                       1280 \<mapsto> [(''http://host/saureus'', ''1280'')]],
      ''genus'' \<mapsto> [561 \<mapsto> [(''http://host/ecoli'', ''562''), (''http://host/efer'', ''564'')],
                     1279 \<mapsto> [(''http://host/saureus'', ''1280'')]],
      ''family'' \<mapsto> [543 \<mapsto> [(''http://host/ecoli'', ''562''), (''http://host/efer'', ''564'')],
                      90964 \<mapsto> [(''http://host/saureus'', ''1280'')]]]"

text \<open>A line of a genome list: three fields separated by tabs, and the line end.\<close>

definition tsv_line :: "string \<Rightarrow> string \<Rightarrow> string \<Rightarrow> string" where
  "tsv_line a b c = a @ [CHR 0x09] @ b @ [CHR 0x09] @ c @ [CHR 0x0A]"

definition example_primary :: "string list" where
  "example_primary =
     [tsv_line ''562'' ''Escherichia coli'' ''ftp://host/a'',
      tsv_line ''561'' ''Escherichia'' ''ftp://host/b'',
      tsv_line ''562'' ''E. coli'' ''http://mirror/c'']"

definition example_additional :: "string list" where
  "example_additional =
     [tsv_line ''562'' ''Escherichia coli'' ''ftp://local/d'',
      tsv_line ''1'' ''root'' ''/data/e.fa'']"

definition example_config :: config where
  "example_config =
     [''Main'' \<mapsto> [''number_of_samples'' \<mapsto> ''2''], ''community0'' \<mapsto> Map.empty]"

definition example_records :: "(string \<times> assignment) list" where
  "example_records =
     [(''otu1.0'', (562, ''562'', ''http://host/ecoli'', [3, 4])),
      (''otu2.0'', (1280, ''1280'', ''/data/saureus'', [1, 2]))]"

definition example_unassigned :: profile where
  "example_unassigned =
     [(''otuA'', ([''s__unknown A''], [5])), (''otuB'', ([''s__unknown B''], [2]))]"

definition example_one_genome :: rank_index where
  "example_one_genome =
     [''species'' \<mapsto> [562 \<mapsto> [(''http://host/ecoli'', ''562'')]],
      ''genus'' \<mapsto> [561 \<mapsto> [(''http://host/ecoli'', ''562'')]],
      ''family'' \<mapsto> [543 \<mapsto> [(''http://host/ecoli'', ''562'')]]]"

definition example_rng :: "nat np_rand" where
  "example_rng =
     \<lparr>geometric = (\<lambda>p g. (int (g mod 3) + 1, g + 1)),
      choice = (\<lambda>n k g. (take k (rotate g [0 ..< n]), g + 1)),
      lognormal = (\<lambda>m s n g. (map (\<lambda>i. real (i + g mod 3 + 1)) [0 ..< n], g + 1))\<rparr>"

definition example_otuA :: "string \<times> (string list \<times> real list)" where
  "example_otuA = (''otuA'', ([''k__Bacteria'', ''g__Staphylococcus''], [5, 10]))"

definition example_otuB :: "string \<times> (string list \<times> real list)" where
  "example_otuB = (''otuB'', ([''k__Bacteria'', ''g__Escherichia''], [6, 12]))"

definition example_otuC :: "string \<times> (string list \<times> real list)" where
  "example_otuC =
     (''otuC'', ([''k__Bacteria'', ''g__Escherichia'', ''s__Escherichia coli''], [1, 1]))"

definition example_profile :: profile where
  "example_profile = [example_otuB, example_otuA, example_otuC]"

definition example_run ::
  "(real \<Rightarrow> real) \<Rightarrow> profile \<Rightarrow> bool \<Rightarrow> py_error + (nat engine_state \<times> log_entry list)" where
  "example_run rnd prof replace =
     map_otus_to_genomes rnd example_rng example_db prof example_index RANKS ''family''
       1 2 3 False replace False (1::nat)"


section \<open>Results\<close>

subsection \<open>The maximum number of strains is never read from the configuration\<close>

lemma max_strains_name_unbound: "eval_option_name ''max_strains_per_otu'' = Inl NameError"
  by (simp add: eval_option_name_def bound_names_def module_names_def)

lemma max_strains_always_default:
  "generate_input_max_strains cfg = (3, [''Max strains per OTU not set, using default (3)''])"
  by (simp add: generate_input_max_strains_def max_strains_name_unbound)

text \<open>
  C7. The claim: a maximum-strains-per-OTU value present in the configuration is the one
  used, and the default 3 (with a warning) is used only when it is missing. The code
  evaluates the unbound name \<^verbatim>\<open>max_strains_per_otu\<close>, the bare \<^verbatim>\<open>except\<close> swallows the
  \<^verbatim>\<open>NameError\<close>, and with the option set to 5 in section Main the engine still gets 3
  and the warning.
\<close>

theorem max_strains_configured_value_ignored:
  "generate_input_max_strains
     [''Main'' \<mapsto> [''max_strains_per_otu'' \<mapsto> ''5'']]
   = (3, [''Max strains per OTU not set, using default (3)''])"
  by (simp add: generate_input_max_strains_def max_strains_name_unbound)

subsection \<open>The sample count of the profile reader\<close>

lemma str_small: "str (- 1) = ''-1''" "str 2 = ''2''" "str 3 = ''3''" "str 7 = ''7''"
  by (simp_all add: str_def str_nat.simps digit_char_def)

lemma update_entry:
  "(k', v') \<in> set (AList.update k v al) \<Longrightarrow> (k', v') = (k, v) \<or> (k', v') \<in> set al"
  by (induction al) (auto split: if_splits)

lemma read_otus_entries:
  "read_otus table n ids prof = Inr prof' \<Longrightarrow>
   \<forall>(otu, lineage, abundances) \<in> set prof.
       abundances = map (get_value_by_ids table otu) (slice_to (sample_ids table) n) \<Longrightarrow>
   \<forall>(otu, lineage, abundances) \<in> set prof'.
       abundances = map (get_value_by_ids table otu) (slice_to (sample_ids table) n)"
proof (induction ids arbitrary: prof)
  case Nil
  then show ?case by simp
next
  case (Cons otu ids)
  from Cons.prems(1) obtain tax where tax: "taxonomy_of table otu = Some tax"
    by (auto split: option.splits)
  let ?lin = "case tax of TaxString s \<Rightarrow> split_char (CHR '';'') [] s | TaxList l \<Rightarrow> l"
  let ?ab = "map (get_value_by_ids table otu) (slice_to (sample_ids table) n)"
  from Cons.prems(1) tax
  have run: "read_otus table n ids (AList.update otu (?lin, ?ab) prof) = Inr prof'"
    by (simp add: Let_def)
  have "\<forall>(o', l', a') \<in> set (AList.update otu (?lin, ?ab) prof).
          a' = map (get_value_by_ids table o') (slice_to (sample_ids table) n)"
    using Cons.prems(2) by (auto dest!: update_entry)
  with Cons.IH [OF run] show ?case by blast
qed

lemma read_otus_keys:
  "read_otus table n ids prof = Inr prof' \<Longrightarrow> fst ` set prof' = fst ` set prof \<union> set ids"
proof (induction ids arbitrary: prof)
  case Nil
  then show ?case by simp
next
  case (Cons otu ids)
  from Cons.prems obtain tax where tax: "taxonomy_of table otu = Some tax"
    by (auto split: option.splits)
  let ?lin = "case tax of TaxString s \<Rightarrow> split_char (CHR '';'') [] s | TaxList l \<Rightarrow> l"
  let ?ab = "map (get_value_by_ids table otu) (slice_to (sample_ids table) n)"
  from Cons.prems tax
  have run: "read_otus table n ids (AList.update otu (?lin, ?ab) prof) = Inr prof'"
    by (simp add: Let_def)
  have "fst ` set (AList.update otu (?lin, ?ab) prof) = insert otu (fst ` set prof)"
    using dom_update [of otu "(?lin, ?ab)" prof] by (simp add: dom_map_of_conv_image_fst)
  with Cons.IH [OF run] show ?case by auto
qed

text \<open>
  C10, as amended. For a requested sample count \<open>n \<ge> 0\<close> that differs from the number of
  samples of the table and is not 1, the count written to the configuration is \<open>n\<close>
  clamped down to the number of samples of the table, every OTU of the table is in the
  profile, and the abundance vector of every OTU holds the values of the first that many
  samples, so it has exactly that many entries.
\<close>

theorem profile_sample_count:
  assumes run: "read_taxonomic_profile table cfg (Some n) = Inr (cfg', logged, prof)"
    and differs: "n \<noteq> int (length (sample_ids table))" and not_one: "n \<noteq> 1"
    and nonneg: "0 \<le> n"
  shows "config_get cfg' ''Main'' ''number_of_samples''
           = Inr (str (min n (int (length (sample_ids table)))))
       \<and> fst ` set prof = set (observation_ids table)
       \<and> (\<forall>(otu, lineage, abundances) \<in> set prof.
            abundances = map (get_value_by_ids table otu)
                           (take (nat (min n (int (length (sample_ids table))))) (sample_ids table))
          \<and> int (length abundances) = min n (int (length (sample_ids table))))"
proof -
  let ?len = "int (length (sample_ids table))"
  let ?m = "min n ?len"
  have adj: "fst (adjust_no_samples (length (sample_ids table)) (Some n)) = ?m"
    using differs not_one by (simp add: adjust_no_samples_def Let_def min_def)
  obtain ws where adj': "adjust_no_samples (length (sample_ids table)) (Some n) = (?m, ws)"
    using adj by (cases "adjust_no_samples (length (sample_ids table)) (Some n)") simp
  from run adj' obtain opts where sec: "cfg ''Main'' = Some opts"
    and cfg': "cfg' = cfg(''Main'' \<mapsto> opts(''number_of_samples'' \<mapsto> str ?m))"
    and otus: "read_otus table ?m (observation_ids table) [] = Inr prof"
    by (auto simp: read_taxonomic_profile_def config_set_def split: option.splits sum.splits)
  have c1: "config_get cfg' ''Main'' ''number_of_samples'' = Inr (str ?m)"
    by (simp add: cfg' config_get_def)
  have c2: "fst ` set prof = set (observation_ids table)"
    using read_otus_keys [OF otus] by simp
  have m0: "0 \<le> ?m" using nonneg by simp
  have sl: "slice_to (sample_ids table) ?m = take (nat ?m) (sample_ids table)"
    using m0 by (simp add: slice_to_def)
  have "\<forall>(otu, lineage, abundances) \<in> set prof.
          abundances = map (get_value_by_ids table otu) (slice_to (sample_ids table) ?m)"
    using read_otus_entries [OF otus] by simp
  then have c3: "\<forall>(otu, lineage, abundances) \<in> set prof.
            abundances = map (get_value_by_ids table otu) (take (nat ?m) (sample_ids table))
          \<and> int (length abundances) = ?m"
  proof (clarify, intro conjI)
    fix otu lineage abundances
    assume mem: "(otu, lineage, abundances) \<in> set prof"
    with \<open>\<forall>(otu, lineage, abundances) \<in> set prof.
          abundances = map (get_value_by_ids table otu) (slice_to (sample_ids table) ?m)\<close>
    show ab: "abundances = map (get_value_by_ids table otu) (take (nat ?m) (sample_ids table))"
      unfolding sl by blast
    have "length (take (nat ?m) (sample_ids table)) = nat ?m"
      by simp
    with ab m0 show "int (length abundances) = ?m" by simp
  qed
  from c1 c2 c3 show ?thesis by blast
qed

theorem profile_sample_count_witness:
  "read_taxonomic_profile example_table [''Main'' \<mapsto> Map.empty] (Some 7)
     = Inr ([''Main'' \<mapsto> [''number_of_samples'' \<mapsto> ''3'']],
            [''Number of samples (7) does not match number of samples in biom file (3)'',
             ''Using the first 3 samples''],
            [(''otu1'', [''k__Bacteria'', ''p__Firmicutes''], [1, 2, 3])])
   \<and> config_get [''Main'' \<mapsto> [''number_of_samples'' \<mapsto> ''3'']] ''Main'' ''number_of_samples''
       = Inr ''3''"
proof -
  have run: "read_taxonomic_profile example_table [''Main'' \<mapsto> Map.empty] (Some 7)
     = Inr ([''Main'' \<mapsto> [''number_of_samples'' \<mapsto> ''3'']],
            [''Number of samples (7) does not match number of samples in biom file (3)'',
             ''Using the first 3 samples''],
            [(''otu1'', [''k__Bacteria'', ''p__Firmicutes''], [1, 2, 3])])"
    by (simp add: read_taxonomic_profile_def adjust_no_samples_def example_table_def
        config_set_def slice_to_def str_small Let_def)
  have d: "(7::int) \<noteq> int (length (sample_ids example_table))"
    by (simp add: example_table_def)
  from profile_sample_count [OF run d] run show ?thesis
    by (simp add: example_table_def str_small)
qed

text \<open>
  C10 as stated has no lower bound on the requested count. For the request \<open>-1\<close> on a
  table of three samples the count stays \<open>-1\<close> (the clamp only acts on a count above
  the table's), and the slice \<^verbatim>\<open>samples[:-1]\<close> keeps two samples: the abundance vector
  has two entries, not \<open>no_samples\<close> entries.
\<close>

theorem profile_negative_override_counterexample:
  "read_taxonomic_profile example_table [''Main'' \<mapsto> Map.empty] (Some (- 1))
     = Inr ([''Main'' \<mapsto> [''number_of_samples'' \<mapsto> ''-1'']],
            [''Number of samples (-1) does not match number of samples in biom file (3)'',
             ''Using the first -1 samples''],
            [(''otu1'', [''k__Bacteria'', ''p__Firmicutes''], [1, 2])])"
  by (simp add: read_taxonomic_profile_def adjust_no_samples_def example_table_def
      config_set_def slice_to_def str_small Let_def)

subsection \<open>The locations stored by the genome list reader\<close>

lemma parse_line_Inr:
  "parse_line l = Inr (a, b, c) \<Longrightarrow> split_line l = [a, b, c]"
  by (auto simp: parse_line_def split: list.splits)

lemma map_of_add_location:
  "map_of (add_location i n loc gm) =
     (map_of gm)(i \<mapsto> (case map_of gm i of Some (n', locs) \<Rightarrow> (n', locs @ [loc])
                                           | None \<Rightarrow> (n, [loc])))"
  by (simp add: add_location_def update_conv')

lemma locs_of_add_location:
  "locs_of (add_location i n loc gm) j = (if j = i then locs_of gm i @ [loc] else locs_of gm j)"
  by (auto simp: locs_of_def map_of_add_location split: option.splits)

lemma read_primary_locs:
  "read_primary ls gm = Inr gm' \<Longrightarrow>
   locs_of gm' i = locs_of gm i @ map (str_replace ''ftp://'' ''http://'') (locations_in i ls)"
proof (induction ls arbitrary: gm)
  case Nil
  then show ?case by (simp add: locations_in_def)
next
  case (Cons l ls)
  from Cons.prems obtain a b c where p: "parse_line l = Inr (a, b, c)"
    and run: "read_primary ls (add_location a b (str_replace ''ftp://'' ''http://'' c) gm) = Inr gm'"
    by (auto split: sum.splits)
  from parse_line_Inr [OF p] Cons.IH [OF run] show ?case
    by (simp add: locs_of_add_location locations_in_def)
qed

lemma read_additional_locs:
  "read_additional ls gm = Inr gm' \<Longrightarrow> locs_of gm' i = locs_of gm i @ locations_in i ls"
proof (induction ls arbitrary: gm)
  case Nil
  then show ?case by (simp add: locations_in_def)
next
  case (Cons l ls)
  from Cons.prems obtain a b c where p: "parse_line l = Inr (a, b, c)"
    and run: "read_additional ls (add_location a b c gm) = Inr gm'"
    by (auto split: sum.splits)
  from parse_line_Inr [OF p] Cons.IH [OF run] show ?case
    by (simp add: locs_of_add_location locations_in_def)
qed

text \<open>
  C9. Of a genome list that is read without error, the locations stored for an id are
  the locations of the primary file's lines for that id, each with \<^verbatim>\<open>ftp://\<close> replaced
  by \<^verbatim>\<open>http://\<close>, followed by the locations of the additional file's lines for that id,
  as they are. The replacement rewrites a leading \<^verbatim>\<open>ftp://\<close> to \<^verbatim>\<open>http://\<close> (and goes
  on through the rest of the location).
\<close>

theorem genomes_list_locations:
  assumes "read_genomes_list genomes additional_file = Inr gm"
  shows "locs_of gm ncbi_id
           = map (str_replace ''ftp://'' ''http://'') (locations_in ncbi_id genomes)
             @ locations_in ncbi_id (case additional_file of None \<Rightarrow> [] | Some add \<Rightarrow> add)
       \<and> str_replace ''ftp://'' ''http://'' (''ftp://'' @ rest)
           = ''http://'' @ str_replace ''ftp://'' ''http://'' rest"
proof -
  from assms obtain gm0 where p: "read_primary genomes [] = Inr gm0"
    and a: "(case additional_file of None \<Rightarrow> Inr gm0 | Some add \<Rightarrow> read_additional add gm0) = Inr gm"
    by (auto simp: read_genomes_list_def split: sum.splits)
  have l0: "locs_of gm0 ncbi_id = map (str_replace ''ftp://'' ''http://'') (locations_in ncbi_id genomes)"
    using read_primary_locs [OF p, of ncbi_id] by (simp add: locs_of_def)
  have "locs_of gm ncbi_id
           = locs_of gm0 ncbi_id
             @ locations_in ncbi_id (case additional_file of None \<Rightarrow> [] | Some add \<Rightarrow> add)"
  proof (cases additional_file)
    case None
    with a show ?thesis by (simp add: locations_in_def)
  next
    case (Some add)
    with a have "read_additional add gm0 = Inr gm" by simp
    from read_additional_locs [OF this, of ncbi_id] Some show ?thesis by simp
  qed
  with l0 show ?thesis by simp
qed

lemma example_genomes_list:
  "read_genomes_list example_primary (Some example_additional)
     = Inr [(''562'', (''Escherichia coli'', [''http://host/a'', ''http://mirror/c'', ''ftp://local/d''])),
            (''561'', (''Escherichia'', [''http://host/b''])),
            (''1'', (''root'', [''/data/e.fa'']))]"
  by (simp add: read_genomes_list_def example_primary_def example_additional_def tsv_line_def
      parse_line_def split_line_def strip_def is_space_def add_location_def)

theorem genomes_list_locations_witness:
  "read_genomes_list example_primary (Some example_additional)
     = Inr [(''562'', (''Escherichia coli'', [''http://host/a'', ''http://mirror/c'', ''ftp://local/d''])),
            (''561'', (''Escherichia'', [''http://host/b''])),
            (''1'', (''root'', [''/data/e.fa'']))]
   \<and> map (str_replace ''ftp://'' ''http://'') (locations_in ''562'' example_primary)
       @ locations_in ''562'' example_additional
       = [''http://host/a'', ''http://mirror/c'', ''ftp://local/d'']"
  using genomes_list_locations [OF example_genomes_list, of "''562''"] example_genomes_list
  by (simp add: locs_of_def)


subsection \<open>The keys of the rank index\<close>

lemma index_from_Inr:
  "index_from k xs x = Inr i \<Longrightarrow>
   k \<le> i \<and> i - k < length xs \<and> xs ! (i - k) = x \<and> (\<forall>m < i - k. xs ! m \<noteq> x)"
proof (induction xs arbitrary: k)
  case Nil
  then show ?case by simp
next
  case (Cons y ys)
  show ?case
  proof (cases "y = x")
    case True
    with Cons.prems show ?thesis by simp
  next
    case False
    with Cons.prems have "index_from (Suc k) ys x = Inr i" by simp
    from Cons.IH [OF this]
    have *: "Suc k \<le> i" "i - Suc k < length ys" "ys ! (i - Suc k) = x"
      "\<forall>m < i - Suc k. ys ! m \<noteq> x" by auto
    have ik: "i - k = Suc (i - Suc k)" using *(1) by simp
    show ?thesis
      unfolding ik using * False by (auto simp: nth_Cons split: nat.splits)
  qed
qed

lemma index_from_mem:
  "x \<in> set xs \<Longrightarrow> \<exists>i. index_from k xs x = Inr i"
  by (induction xs arbitrary: k) auto

lemma index_Inr:
  "index xs x = Inr i \<Longrightarrow> i < length xs \<and> xs ! i = x \<and> (\<forall>m < i. xs ! m \<noteq> x)"
  using index_from_Inr [of 0 xs x i] by (simp add: index_def)

lemma index_nth_le:
  assumes "k < length xs"
  shows "\<exists>i. index xs (xs ! k) = Inr i \<and> i \<le> k"
proof -
  from assms have "xs ! k \<in> set xs" by simp
  from index_from_mem [OF this, of 0] obtain i where i: "index xs (xs ! k) = Inr i"
    by (auto simp: index_def)
  from index_Inr [OF i] have "\<forall>m < i. xs ! m \<noteq> xs ! k" by simp
  then have "\<not> k < i" by blast
  then have "i \<le> k" by simp
  with i show ?thesis by blast
qed

lemma init_per_rank_map_dom:
  "init_per_rank_map ranks max_rank rs prm = Inr prm' \<Longrightarrow>
   dom prm' = dom prm \<union> set (takeWhile (up_to_max_rank ranks max_rank) rs)"
proof (induction rs arbitrary: prm)
  case Nil
  then show ?case by simp
next
  case (Cons r rs)
  from Cons.prems obtain i j where i: "index ranks r = Inr i" and j: "index ranks max_rank = Inr j"
    by (auto split: sum.splits)
  show ?case
  proof (cases "i > j")
    case True
    with Cons.prems i j show ?thesis by (simp add: up_to_max_rank_def)
  next
    case False
    with Cons.prems i j
    have "init_per_rank_map ranks max_rank rs (prm(r \<mapsto> Map.empty)) = Inr prm'" by simp
    from Cons.IH [OF this]
    have d: "dom prm' = dom (prm(r \<mapsto> Map.empty))
               \<union> set (takeWhile (up_to_max_rank ranks max_rank) rs)" .
    have P: "up_to_max_rank ranks max_rank r"
      using False i j by (simp add: up_to_max_rank_def)
    have "takeWhile (up_to_max_rank ranks max_rank) (r # rs)
            = r # takeWhile (up_to_max_rank ranks max_rank) rs"
      using P by simp
    with d show ?thesis by simp
  qed
qed

lemma takeWhile_up_to_max_rank:
  "set (takeWhile (up_to_max_rank ranks max_rank) ranks)
     = {r \<in> set ranks. up_to_max_rank ranks max_rank r}"
proof (intro equalityI subsetI)
  fix r assume "r \<in> set (takeWhile (up_to_max_rank ranks max_rank) ranks)"
  then show "r \<in> {r \<in> set ranks. up_to_max_rank ranks max_rank r}"
    by (auto dest: set_takeWhileD)
next
  fix r assume "r \<in> {r \<in> set ranks. up_to_max_rank ranks max_rank r}"
  then have ok: "up_to_max_rank ranks max_rank r" by simp
  then obtain i j where i: "index ranks r = Inr i" and j: "index ranks max_rank = Inr j"
    and ij: "i \<le> j"
    by (auto simp: up_to_max_rank_def split: sum.splits)
  from index_Inr [OF i] have il: "i < length ranks" and ri: "ranks ! i = r" by auto
  have "\<forall>k < Suc i. up_to_max_rank ranks max_rank (ranks ! k)"
  proof (intro allI impI)
    fix k assume "k < Suc i"
    with il have kl: "k < length ranks" by simp
    from index_nth_le [OF kl] obtain i' where "index ranks (ranks ! k) = Inr i'" "i' \<le> k"
      by blast
    with \<open>k < Suc i\<close> ij j show "up_to_max_rank ranks max_rank (ranks ! k)"
      by (simp add: up_to_max_rank_def)
  qed
  then have "Suc i \<le> length (takeWhile (up_to_max_rank ranks max_rank) ranks)"
    using il by (intro length_takeWhile_less_P_nth) auto
  then have "i < length (takeWhile (up_to_max_rank ranks max_rank) ranks)" by simp
  then have "takeWhile (up_to_max_rank ranks max_rank) ranks ! i \<in> set (takeWhile (up_to_max_rank ranks max_rank) ranks)"
    by (rule nth_mem)
  moreover have "takeWhile (up_to_max_rank ranks max_rank) ranks ! i = ranks ! i"
    using \<open>i < length (takeWhile (up_to_max_rank ranks max_rank) ranks)\<close> by (rule takeWhile_nth)
  ultimately show "r \<in> set (takeWhile (up_to_max_rank ranks max_rank) ranks)"
    using ri by simp
qed

lemma index_taxid_dom:
  "index_taxid rks genome locs t prm = Inr prm' \<Longrightarrow> dom prm' = dom prm"
  by (auto simp: index_taxid_def split: option.splits list.splits if_splits)

lemma index_lineage_dom:
  "index_lineage rks genome locs lineage prm = Inr prm' \<Longrightarrow> dom prm' = dom prm"
proof (induction lineage arbitrary: prm)
  case Nil
  then show ?case by simp
next
  case (Cons t ts)
  from Cons.prems obtain prm1 where a: "index_taxid rks genome locs t prm = Inr prm1"
    and b: "index_lineage rks genome locs ts prm1 = Inr prm'"
    by (auto split: sum.splits)
  from index_taxid_dom [OF a] Cons.IH [OF b] show ?case by simp
qed

lemma index_genomes_dom:
  "index_genomes db gm prm = Inr prm' \<Longrightarrow> dom prm' = dom prm"
proof (induction gm arbitrary: prm)
  case Nil
  then show ?case by simp
next
  case (Cons g gm)
  obtain genome sci_name locs where g: "g = (genome, sci_name, locs)" by (cases g) auto
  from Cons.prems g obtain lineage prm1 where
    a: "index_lineage (get_rank db lineage) genome locs lineage prm = Inr prm1" and
    b: "index_genomes db gm prm1 = Inr prm'"
    by (auto split: sum.splits)
  from index_lineage_dom [OF a] Cons.IH [OF b] show ?case by simp
qed

lemma get_genomes_per_rank_dom:
  assumes "get_genomes_per_rank db gm ranks max_rank = Inr prm"
  shows "dom prm = {r \<in> set ranks. up_to_max_rank ranks max_rank r}"
proof -
  from assms obtain prm0 where a: "init_per_rank_map ranks max_rank ranks Map.empty = Inr prm0"
    and b: "index_genomes db gm prm0 = Inr prm"
    by (auto simp: get_genomes_per_rank_def split: sum.splits)
  from init_per_rank_map_dom [OF a] index_genomes_dom [OF b] show ?thesis
    by (simp add: takeWhile_up_to_max_rank)
qed

lemma up_to_family:
  "{r \<in> set RANKS. up_to_max_rank RANKS ''family'' r} = {''species'', ''genus'', ''family''}"
proof -
  have "filter (up_to_max_rank RANKS ''family'') RANKS = [''species'', ''genus'', ''family'']"
    by (simp add: RANKS_def up_to_max_rank_def index_def)
  then have "set (filter (up_to_max_rank RANKS ''family'') RANKS)
               = set [''species'', ''genus'', ''family'']" by simp
  then show ?thesis by simp
qed


text \<open>
  C6. The keys of the rank index that the catalog builder returns are exactly the ranks
  whose position in the rank list is at most the position of the maximum rank. For the
  program's rank list and the maximum rank family they are species, genus and family:
  nothing is indexed under order, class, phylum or superkingdom.
\<close>

theorem rank_index_keys:
  assumes "get_genomes_per_rank db genomes_map ranks max_rank = Inr prm"
  shows "dom prm = {r \<in> set ranks. up_to_max_rank ranks max_rank r}
       \<and> (ranks = RANKS \<and> max_rank = ''family'' \<longrightarrow>
            dom prm = {''species'', ''genus'', ''family''}
          \<and> prm ''order'' = None \<and> prm ''class'' = None \<and> prm ''phylum'' = None
          \<and> prm ''superkingdom'' = None)"
proof -
  have d: "dom prm = {r \<in> set ranks. up_to_max_rank ranks max_rank r}"
    using assms by (rule get_genomes_per_rank_dom)
  have "dom prm = {''species'', ''genus'', ''family''}
          \<and> prm ''order'' = None \<and> prm ''class'' = None \<and> prm ''phylum'' = None
          \<and> prm ''superkingdom'' = None" if "ranks = RANKS" "max_rank = ''family''"
  proof -
    from d that have dp: "dom prm = {''species'', ''genus'', ''family''}"
      by (simp add: up_to_family)
    have "''order'' \<notin> dom prm" "''class'' \<notin> dom prm" "''phylum'' \<notin> dom prm"
      "''superkingdom'' \<notin> dom prm"
      unfolding dp by simp_all
    then have "prm ''order'' = None" "prm ''class'' = None" "prm ''phylum'' = None"
      "prm ''superkingdom'' = None"
      by (simp_all only: domIff not_not)
    with dp show ?thesis by blast
  qed
  with d show ?thesis by blast
qed


lemma example_rank_index:
  "get_genomes_per_rank example_db example_genomes RANKS ''family'' = Inr example_index"
  by (simp add: get_genomes_per_rank_def RANKS_def index_def example_db_def example_genomes_def
      get_lineage_def get_rank_def index_taxid_def fun_upd_twist example_index_def)

theorem rank_index_keys_witness:
  "get_genomes_per_rank example_db example_genomes RANKS ''family'' = Inr example_index
   \<and> dom example_index = {''species'', ''genus'', ''family''}
   \<and> example_index ''order'' = None \<and> example_index ''class'' = None
   \<and> example_index ''phylum'' = None \<and> example_index ''superkingdom'' = None"
  using rank_index_keys [OF example_rank_index] example_rank_index by blast

subsection \<open>The retry of the lineage normalizer\<close>

text \<open>
  C4. The claim: a name that fails resolution is resolved again from its first word, and
  the id found is kept when its rank is recognized. The code looks the first word up in
  the dictionary it got for the whole name, which has no other key. For the token
  \<^verbatim>\<open>s__Escherichia coli_K12\<close>, whose first word Escherichia is the genus 561 of the
  database, nothing is kept.
\<close>

theorem lineage_retry_never_resolves:
  "transform_lineage example_db [''s__Escherichia coli_K12''] RANKS MAX_RANK = Inr []"
  by (simp add: transform_lineage_def get_name_translator_def example_db_def Let_def
      is_space_def)

subsection \<open>Fill-up\<close>

lemma fill_up_raises: "fill_up ogm prm tax_profile = Inl NameError"
  by (simp add: fill_up_def module_names_def)

text \<open>
  C5. The claim: the unassigned OTUs are served in ascending order of mean abundance
  while genomes remain, so that of two unassigned OTUs with mean abundances 5 and 2 and
  one remaining genome, the OTU with mean abundance 2 gets the genome. On that input (no
  OTU assigned, one genome left in the index) \<^verbatim>\<open>fill_up\<close> raises \<^verbatim>\<open>NameError\<close> at its
  second statement and assigns nothing.
\<close>

theorem fill_up_assigns_nothing:
  "fill_up Map.empty example_one_genome example_unassigned = Inl NameError"
  by (rule fill_up_raises)

subsection \<open>Genome retrieval in the output writer\<close>

lemma retrieve_all_fail:
  "\<forall>k. fails otu k \<Longrightarrow> retrieve fails out_path otu path counter = (max counter 10, None)"
proof (induction fails out_path otu path counter rule: retrieve.induct)
  case (1 fails out_path otu path counter)
  show ?case
  proof (cases "counter < 10")
    case True
    have a: "attempt fails out_path otu path counter = None"
      using "1.prems" by (simp add: attempt_def)
    from "1.IH" [OF True a "1.prems"] True a show ?thesis
      by (subst retrieve.simps) simp
  next
    case False
    then show ?thesis by (subst retrieve.simps) simp
  qed
qed

lemma retrieve_first_succeeds:
  "\<not> fails otu 0 \<Longrightarrow>
   retrieve fails out_path otu path 0 = (0, attempt fails out_path otu path 0)"
  by (subst retrieve.simps) (simp add: attempt_def Let_def)

lemma retrieve_at_most_ten:
  "counter \<le> 10 \<Longrightarrow> fst (retrieve fails out_path otu path counter) \<le> 10"
proof (induction fails out_path otu path counter rule: retrieve.induct)
  case (1 fails out_path otu path counter)
  show ?case
  proof (cases "counter < 10")
    case True
    show ?thesis
    proof (cases "attempt fails out_path otu path counter")
      case None
      from "1.IH" [OF True None] True have "fst (retrieve fails out_path otu path (counter + 1)) \<le> 10"
        by simp
      with True None show ?thesis by (subst retrieve.simps) simp
    next
      case (Some genome_path)
      with True "1.prems" show ?thesis by (subst retrieve.simps) simp
    qed
  next
    case False
    with "1.prems" show ?thesis by (subst retrieve.simps) simp
  qed
qed

lemma write_record_raises:
  assumes "\<forall>k. fails otu k"
  shows "write_record fails out_path no_samples (otu, a) files
           = Inl (NameError, files\<lparr>error_log := error_log files
                    @ [''Caught exception while moving/downloading genomes'']\<rparr>)"
proof -
  obtain taxid genome_id path curr_abundances where a: "a = (taxid, genome_id, path, curr_abundances)"
    by (cases a) auto
  have "retrieve fails out_path otu path 0 = (10, None)"
    using retrieve_all_fail [of fails otu out_path path 0] assms by simp
  with a show ?thesis by (simp add: write_record_def)
qed

text \<open>
  C8. The claim: after ten failed attempts an error is logged, the genome file is
  skipped and the writer goes on with the remaining records. With two records of which
  the first can never be retrieved, the writer logs the first error message and then
  raises \<^verbatim>\<open>NameError\<close>: the second record is never written and no configuration is
  returned.
\<close>

theorem write_config_halts_after_ten_failures:
  "write_config (\<lambda>otu k. otu = ''otu1.0'') example_records ''out'' example_config
     = Inl (NameError,
            \<lparr>genome_to_id = [],
             metadata = [[''genome_ID'', ''OTU'', ''NCBI_ID'', ''novelty_category'']],
             abundance_files = [[], []],
             error_log = [''Caught exception while moving/downloading genomes'']\<rparr>)"
proof -
  have r: "retrieve (\<lambda>otu k. otu = ''otu1.0'') ''out'' ''otu1.0'' ''http://host/ecoli'' 0
             = (10, None)"
    using retrieve_all_fail [of "\<lambda>otu k. otu = ''otu1.0''" "''otu1.0''" "''out''"
                               "''http://host/ecoli''" 0]
    by simp
  have n: "int_of_string ''2'' = Inr 2"
    by (simp add: int_of_string_def strip_def is_space_def is_digit_def digits_value_def)
  show ?thesis
    by (simp add: write_config_def example_records_def example_config_def config_set_def
        config_get_def n write_record_def r Let_def numeral_2_eq_2)
qed


subsection \<open>Strain ids\<close>

lemma digit_char_inj: "a < 10 \<Longrightarrow> b < 10 \<Longrightarrow> digit_char a = digit_char b \<Longrightarrow> a = b"
proof -
  have d: "distinct ''0123456789''" by simp
  assume "a < 10" "b < 10" "digit_char a = digit_char b"
  then show "a = b"
    using d by (simp add: digit_char_def nth_eq_iff_index_eq)
qed

lemma digit_char_not_dot: "d < 10 \<Longrightarrow> digit_char d \<noteq> CHR ''.''"
proof -
  assume "d < 10"
  then have "digit_char d \<in> set ''0123456789''"
    unfolding digit_char_def by (intro nth_mem) simp
  then show ?thesis by auto
qed

lemma str_nat_not_Nil: "str_nat n \<noteq> []"
  by (subst str_nat.simps) simp

lemma str_nat_last: "last (str_nat n) = digit_char (n mod 10)"
  by (subst str_nat.simps) simp

lemma str_nat_butlast: "butlast (str_nat n) = (if n < 10 then [] else str_nat (n div 10))"
  by (subst str_nat.simps) simp

lemma str_nat_inj: "str_nat m = str_nat n \<Longrightarrow> m = n"
proof (induction m arbitrary: n rule: less_induct)
  case (less m)
  from less.prems have l: "last (str_nat m) = last (str_nat n)"
    and b: "butlast (str_nat m) = butlast (str_nat n)" by simp_all
  from l have "digit_char (m mod 10) = digit_char (n mod 10)"
    by (simp add: str_nat_last)
  then have md: "m mod 10 = n mod 10"
    by (intro digit_char_inj) simp_all
  show ?case
  proof (cases "m < 10")
    case True
    with b have "n < 10"
      using str_nat_not_Nil [of "n div 10"] by (auto simp: str_nat_butlast split: if_splits)
    with True md show ?thesis by simp
  next
    case False
    with b have n10: "\<not> n < 10"
      using str_nat_not_Nil [of "m div 10"] by (auto simp: str_nat_butlast split: if_splits)
    with False b have "str_nat (m div 10) = str_nat (n div 10)"
      by (simp add: str_nat_butlast)
    moreover have "m div 10 < m" using False by simp
    ultimately have "m div 10 = n div 10" by (rule less.IH [rotated])
    with md show ?thesis
      by (metis div_mult_mod_eq)
  qed
qed

lemma str_nat_no_dot: "CHR ''.'' \<notin> set (str_nat n)"
proof (induction n rule: less_induct)
  case (less n)
  show ?case
  proof (cases "n < 10")
    case True
    then show ?thesis
      using digit_char_not_dot [of n] by (subst str_nat.simps) auto
  next
    case False
    then have "n div 10 < n" by simp
    from less.IH [OF this] False show ?thesis
      using digit_char_not_dot [of "n mod 10"] by (subst str_nat.simps) auto
  qed
qed

lemma split_at_last_sep:
  assumes "a @ c # s = a' @ c # s'" and "c \<notin> set s" and "c \<notin> set s'"
  shows "a = a' \<and> s = s'"
proof -
  have "takeWhile (\<lambda>x. x \<noteq> c) (rev (a @ c # s)) = rev s"
    using assms(2) by (auto simp: takeWhile_tail)
  moreover have "takeWhile (\<lambda>x. x \<noteq> c) (rev (a' @ c # s')) = rev s'"
    using assms(3) by (auto simp: takeWhile_tail)
  ultimately have "rev s = rev s'" using assms(1) by simp
  then have s: "s = s'" by simp
  with assms(1) show ?thesis by simp
qed

lemma otu_id_inj: "otu_id otu i = otu_id otu' j \<Longrightarrow> otu = otu' \<and> i = j"
proof -
  assume "otu_id otu i = otu_id otu' j"
  then have e: "otu @ CHR ''.'' # str_nat i = otu' @ CHR ''.'' # str_nat j"
    by (simp add: otu_id_def str_def)
  from split_at_last_sep [OF e str_nat_no_dot str_nat_no_dot]
  show ?thesis using str_nat_inj by blast
qed

lemma otu_id_inj_index: "otu_id otu i = otu_id otu j \<longleftrightarrow> i = j"
  using otu_id_inj by blast

subsection \<open>The records of one OTU\<close>

lemma assign_strains_result:
  "assign_strains E otu t ab vals S i used ogm prm = Inr (ogm', prm') \<Longrightarrow>
   (used \<noteq> [] \<longrightarrow> i + length used \<le> length vals)
   \<and> (\<forall>j < length used.
        ogm' (otu_id otu (i + j))
          = Some (t, snd (used ! j), fst (used ! j),
                  map (\<lambda>a. p_fl E (p_fl E (vals ! (i + j) / S) * a)) ab))
   \<and> (\<forall>k. (\<forall>j < length used. k \<noteq> otu_id otu (i + j)) \<longrightarrow> ogm' k = ogm k)"
proof (induction used arbitrary: i ogm prm)
  case Nil
  then show ?case by simp
next
  case (Cons u used)
  obtain path genome_id where u: "u = (path, genome_id)" by (cases u) auto
  let ?r = "(t, genome_id, path, map (\<lambda>a. p_fl E (p_fl E (vals ! i / S) * a)) ab)"
  let ?ogm = "ogm(otu_id otu i \<mapsto> ?r)"
  let ?prm = "if \<not> p_replace E then remove_genome (path, genome_id) prm else prm"
  from Cons.prems u have len: "i < length vals"
    by (auto split: if_splits)
  from Cons.prems u len
  have run: "assign_strains E otu t ab vals S (Suc i) used ?ogm ?prm = Inr (ogm', prm')"
    by (simp add: Let_def)
  from Cons.IH [OF run]
  have l: "used \<noteq> [] \<longrightarrow> Suc i + length used \<le> length vals"
    and rec: "\<forall>j < length used.
        ogm' (otu_id otu (Suc i + j))
          = Some (t, snd (used ! j), fst (used ! j),
                  map (\<lambda>a. p_fl E (p_fl E (vals ! (Suc i + j) / S) * a)) ab)"
    and frame: "\<forall>k. (\<forall>j < length used. k \<noteq> otu_id otu (Suc i + j)) \<longrightarrow> ogm' k = ?ogm k"
    by blast+
  have first: "ogm' (otu_id otu i) = Some ?r"
  proof -
    have "\<forall>j < length used. otu_id otu i \<noteq> otu_id otu (Suc i + j)"
      by (simp add: otu_id_inj_index)
    with frame have "ogm' (otu_id otu i) = ?ogm (otu_id otu i)" by blast
    then show ?thesis by simp
  qed
  have c1: "i + length (u # used) \<le> length vals" using l len by (cases used) simp_all
  have c2: "\<forall>j < length (u # used).
        ogm' (otu_id otu (i + j))
          = Some (t, snd ((u # used) ! j), fst ((u # used) ! j),
                  map (\<lambda>a. p_fl E (p_fl E (vals ! (i + j) / S) * a)) ab)"
  proof (intro allI impI)
    fix j assume j: "j < length (u # used)"
    show "ogm' (otu_id otu (i + j))
          = Some (t, snd ((u # used) ! j), fst ((u # used) ! j),
                  map (\<lambda>a. p_fl E (p_fl E (vals ! (i + j) / S) * a)) ab)"
    proof (cases j)
      case 0
      with first u show ?thesis by simp
    next
      case (Suc j')
      with j have "j' < length used" by simp
      with rec Suc show ?thesis by simp
    qed
  qed
  have c3: "\<forall>k. (\<forall>j < length (u # used). k \<noteq> otu_id otu (i + j)) \<longrightarrow> ogm' k = ogm k"
  proof (intro allI impI)
    fix k assume k: "\<forall>j < length (u # used). k \<noteq> otu_id otu (i + j)"
    then have k0: "k \<noteq> otu_id otu i" by force
    have "\<forall>j < length used. k \<noteq> otu_id otu (Suc i + j)"
    proof (intro allI impI)
      fix j assume "j < length used"
      then have "Suc j < length (u # used)" by simp
      with k have "k \<noteq> otu_id otu (i + Suc j)" by blast
      then show "k \<noteq> otu_id otu (Suc i + j)" by simp
    qed
    with frame have "ogm' k = ?ogm k" by blast
    with k0 show "ogm' k = ogm k" by simp
  qed
  from c1 c2 c3 show ?case by blast
qed


lemma strains_to_draw_range:
  assumes "strains_to_draw E g = Inr (n, g')"
  shows "2 \<le> p_max_strains E \<and> 1 \<le> n \<and> n \<le> p_max_strains E - 1
       \<and> n = max (fst (geometric (p_rng E) (2 / real_of_int (p_max_strains E)) g)
                    mod p_max_strains E) 1
       \<and> g' = snd (geometric (p_rng E) (2 / real_of_int (p_max_strains E)) g)"
proof -
  let ?m = "p_max_strains E"
  let ?p = "2 / real_of_int ?m"
  from assms have m0: "?m \<noteq> 0" and p0: "\<not> ?p < 0" and p1: "\<not> 1 < ?p"
    by (auto simp: strains_to_draw_def Let_def split: if_splits)
  from p0 m0 have mpos: "0 < ?m"
    by (simp add: divide_less_0_iff not_less)
  with p1 have m2: "2 \<le> ?m"
    by (simp add: field_simps)
  obtain k g1 where geo: "geometric (p_rng E) ?p g = (k, g1)"
    by (cases "geometric (p_rng E) ?p g") auto
  from assms m0 p0 p1 geo have n: "n = max (k mod ?m) 1" and g': "g' = g1"
    by (auto simp: strains_to_draw_def Let_def)
  have "k mod ?m < ?m" using mpos by simp
  then have "max (k mod ?m) 1 \<le> ?m - 1" using m2 by simp
  with n g' geo m2 show ?thesis by simp
qed

lemma draw_genomes_used:
  assumes "draw_genomes E av g = Inr (used, g1)"
  shows "distinct used \<and> set used \<subseteq> set av"
proof -
  from assms obtain n g0 where s: "strains_to_draw E g = Inr (n, g0)"
    by (auto simp: draw_genomes_def split: sum.splits)
  show ?thesis
  proof (cases "int (length av) \<ge> n")
    case True
    obtain idx g2 where c: "choice (p_rng E) (length av) (nat n) g0 = (idx, g2)"
      by (cases "choice (p_rng E) (length av) (nat n) g0") auto
    from assms s True c have ok: "list_all (\<lambda>i. i < length av) idx"
      and u: "used = remdups (map (nth av) idx)"
      by (auto simp: draw_genomes_def split: if_splits)
    from ok have "set (map (nth av) idx) \<subseteq> set av"
      by (auto simp: list_all_iff)
    with u show ?thesis by simp
  next
    case False
    with assms s have "used = remdups av"
      by (auto simp: draw_genomes_def)
    then show ?thesis by simp
  qed
qed

lemma draw_genomes_count:
  assumes d: "draw_genomes E av g = Inr (used, g1)"
    and s: "strains_to_draw E g = Inr (n, g0)"
    and c: "length (fst (choice (p_rng E) (length av) (nat n) g0)) = nat n"
    and av: "av \<noteq> []"
  shows "1 \<le> length used \<and> length used \<le> min (length av) (nat n)
       \<and> (int (length av) < n \<longrightarrow> set used = set av)"
proof -
  from strains_to_draw_range [OF s] have n1: "1 \<le> n" by simp
  from draw_genomes_used [OF d] have du: "distinct used" and su: "set used \<subseteq> set av"
    by simp_all
  have "length used = card (set used)" using du by (simp add: distinct_card)
  also have "\<dots> \<le> card (set av)" using su by (simp add: card_mono)
  also have "\<dots> \<le> length av" by (rule card_length)
  finally have le_av: "length used \<le> length av" .
  show ?thesis
  proof (cases "int (length av) \<ge> n")
    case True
    obtain idx g2 where ch: "choice (p_rng E) (length av) (nat n) g0 = (idx, g2)"
      by (cases "choice (p_rng E) (length av) (nat n) g0") auto
    from d s True ch have u: "used = remdups (map (nth av) idx)"
      by (auto simp: draw_genomes_def split: if_splits)
    from c ch have li: "length idx = nat n" by simp
    with n1 have "idx \<noteq> []" by auto
    then have "used \<noteq> []" using u by simp
    then have "1 \<le> length used" by (cases used) simp_all
    moreover have "length used \<le> nat n"
      using u li length_remdups_leq [of "map (nth av) idx"] by simp
    ultimately show ?thesis using le_av True by simp
  next
    case False
    with d s have u: "used = remdups av"
      by (auto simp: draw_genomes_def)
    with av have "used \<noteq> []" by simp
    then have "1 \<le> length used" by (cases used) simp_all
    with le_av False u show ?thesis by simp
  qed
qed

lemma assign_genomes_result:
  assumes "assign_genomes E otu t ab av st = Inr st'"
  shows "\<exists>used g1 vals.
           draw_genomes E av (rng_state st) = Inr (used, g1)
         \<and> vals = fst (lognormal (p_rng E) (p_mu E) (p_sigma E) (length used) g1)
         \<and> (used \<noteq> [] \<longrightarrow> length used \<le> length vals)
         \<and> (\<forall>j < length used.
              otu_genome_map st' (otu_id otu j)
                = Some (t, snd (used ! j), fst (used ! j),
                        map (\<lambda>a. p_fl E (p_fl E (vals ! j / sum_floats (p_fl E) vals) * a)) ab))
         \<and> (\<forall>k. (\<forall>j < length used. k \<noteq> otu_id otu j)
                \<longrightarrow> otu_genome_map st' k = otu_genome_map st k)"
proof -
  from assms obtain used g1 where d: "draw_genomes E av (rng_state st) = Inr (used, g1)"
    by (auto simp: assign_genomes_def split: sum.splits)
  obtain vals g2 where l: "lognormal (p_rng E) (p_mu E) (p_sigma E) (length used) g1 = (vals, g2)"
    by (cases "lognormal (p_rng E) (p_mu E) (p_sigma E) (length used) g1") auto
  from assms d l obtain ogm prm where
    a: "assign_strains E otu t ab vals (sum_floats (p_fl E) vals) 0 used
          (otu_genome_map st) (per_rank_map st) = Inr (ogm, prm)"
    and st': "st' = st\<lparr>otu_genome_map := ogm, per_rank_map := prm, rng_state := g2\<rparr>"
    by (auto simp: assign_genomes_def Let_def split: sum.splits)
  from assign_strains_result [OF a] st' d l show ?thesis by simp
qed

lemma walk_lineage_found:
  "walk_lineage E otu lin ab lr full l st = Inr st' \<Longrightarrow>
   (case found_genomes (p_ranks E) (p_max_rank E) (per_rank_map st) lr l of
      None \<Rightarrow> otu_genome_map st' = otu_genome_map st \<and> per_rank_map st' = per_rank_map st
             \<and> rng_state st' = rng_state st
    | Some (t, av) \<Rightarrow> \<exists>ws. assign_genomes E otu t ab av (st\<lparr>warnings := ws\<rparr>) = Inr st')"
proof (induction l arbitrary: st)
  case Nil
  then show ?case by simp
next
  case (Cons tax_id rest)
  from Cons.prems obtain rank i j where r: "lr tax_id = Some rank"
    and i: "index (p_ranks E) rank = Inr i" and j: "index (p_ranks E) (p_max_rank E) = Inr j"
    by (auto split: option.splits sum.splits)
  show ?case
  proof (cases "i > j")
    case True
    with Cons.prems r i j show ?thesis by auto
  next
    case False
    with Cons.prems r i j obtain genomes where g: "per_rank_map st rank = Some genomes"
      by (auto split: option.splits)
    show ?thesis
    proof (cases "genomes tax_id")
      case None
      let ?st = "st\<lparr>warnings := warnings st @ [NoGenomesFound otu rank tax_id]\<rparr>"
      from Cons.prems r i j False g None
      have "walk_lineage E otu lin ab lr full rest ?st = Inr st'" by simp
      from Cons.IH [OF this] r i j False g None show ?thesis
        by (auto split: option.splits)
    next
      case (Some av)
      with Cons.prems r i j False g
      have "assign_genomes E otu tax_id ab av st = Inr st'" by simp
      then have "\<exists>ws. assign_genomes E otu tax_id ab av (st\<lparr>warnings := ws\<rparr>) = Inr st'"
        by (intro exI [of _ "warnings st"]) simp
      with r i j False g Some show ?thesis by simp
    qed
  qed
qed

lemma process_otu_found:
  assumes "process_otu E (otu, lin, ab) st = Inr st'"
  shows "case found_for (p_db E) (p_ranks E) (p_max_rank E) (per_rank_map st) lin of
           None \<Rightarrow> otu_genome_map st' = otu_genome_map st \<and> per_rank_map st' = per_rank_map st
                  \<and> rng_state st' = rng_state st
         | Some (t, av) \<Rightarrow> \<exists>ws. assign_genomes E otu t ab av (st\<lparr>warnings := ws\<rparr>) = Inr st'"
proof -
  from assms obtain lineage where
    tl: "transform_lineage (p_db E) lin (p_ranks E) (p_max_rank E) = Inr lineage"
    by (auto simp: process_otu_def split: sum.splits)
  have "\<exists>ws. walk_lineage E otu lin ab (get_rank (p_db E) lineage) lineage lineage
               (st\<lparr>warnings := ws\<rparr>) = Inr st'"
  proof (cases "length lineage = 0")
    case True
    show ?thesis
    proof (cases lin)
      case Nil
      with assms tl True show ?thesis by (simp add: process_otu_def)
    next
      case (Cons m ms)
      with assms tl True
      have "walk_lineage E otu lin ab (get_rank (p_db E) lineage) lineage lineage
              (st\<lparr>warnings := warnings st
                  @ [NoMatchingNcbiId otu (last (split_dunder [] (last lin)))]\<rparr>) = Inr st'"
        by (simp add: process_otu_def)
      then show ?thesis by blast
    qed
  next
    case False
    with assms tl
    have "walk_lineage E otu lin ab (get_rank (p_db E) lineage) lineage lineage st = Inr st'"
      by (simp add: process_otu_def)
    then have "walk_lineage E otu lin ab (get_rank (p_db E) lineage) lineage lineage
                 (st\<lparr>warnings := warnings st\<rparr>) = Inr st'" by simp
    then show ?thesis by (intro exI [of _ "warnings st"])
  qed
  then obtain ws where
    w: "walk_lineage E otu lin ab (get_rank (p_db E) lineage) lineage lineage
          (st\<lparr>warnings := ws\<rparr>) = Inr st'" by blast
  from walk_lineage_found [OF w] tl show ?thesis
    by (auto simp: found_for_def split: option.splits)
qed


lemma process_otu_frame:
  assumes "process_otu E (otu, lin, ab) st = Inr st'" and "\<forall>i. k \<noteq> otu_id otu i"
  shows "otu_genome_map st' k = otu_genome_map st k"
proof (cases "found_for (p_db E) (p_ranks E) (p_max_rank E) (per_rank_map st) lin")
  case None
  with process_otu_found [OF assms(1)] show ?thesis by simp
next
  case (Some f)
  obtain t av where f: "f = (t, av)" by (cases f) auto
  from process_otu_found [OF assms(1)] Some f obtain ws where
    "assign_genomes E otu t ab av (st\<lparr>warnings := ws\<rparr>) = Inr st'" by auto
  from assign_genomes_result [OF this] assms(2) show ?thesis by auto
qed

lemma process_otus_frame:
  "process_otus E prof st = Inr st' \<Longrightarrow>
   \<forall>otu \<in> fst ` set prof. \<forall>i. k \<noteq> otu_id otu i \<Longrightarrow>
   otu_genome_map st' k = otu_genome_map st k"
proof (induction prof arbitrary: st)
  case Nil
  then show ?case by simp
next
  case (Cons x prof)
  obtain otu lin ab where x: "x = (otu, lin, ab)" by (cases x) auto
  from Cons.prems(1) x obtain st1 where a: "process_otu E (otu, lin, ab) st = Inr st1"
    and b: "process_otus E prof st1 = Inr st'"
    by (auto split: sum.splits)
  from Cons.prems(2) x have "\<forall>i. k \<noteq> otu_id otu i" by simp
  from process_otu_frame [OF a this] have "otu_genome_map st1 k = otu_genome_map st k" .
  moreover from Cons.prems(2) have "\<forall>otu \<in> fst ` set prof. \<forall>i. k \<noteq> otu_id otu i" by simp
  from Cons.IH [OF b this] have "otu_genome_map st' k = otu_genome_map st1 k" .
  ultimately show ?case by simp
qed

lemma process_otus_append:
  "process_otus E (pre @ post) st = Inr st'' \<longleftrightarrow>
   (\<exists>st'. process_otus E pre st = Inr st' \<and> process_otus E post st' = Inr st'')"
  by (induction pre arbitrary: st) (auto split: sum.splits)

lemma other_otu_ids:
  assumes "otu \<notin> fst ` set prof"
  shows "\<forall>otu' \<in> fst ` set prof. \<forall>j. otu_id otu i \<noteq> otu_id otu' j"
  using assms otu_id_inj by blast

text \<open>
  The records of one OTU after a run over a profile with distinct OTU ids: they are the
  records that the OTU's own step wrote, one for each genome it used.
\<close>

lemma otu_records:
  assumes run: "process_otus E (pre @ (otu, lin, ab) # post) st0 = Inr st_final"
    and pre: "process_otus E pre st0 = Inr st"
    and dist: "distinct (map fst (pre @ (otu, lin, ab) # post))"
    and empty: "otu_genome_map st0 = Map.empty"
    and found: "found_for (p_db E) (p_ranks E) (p_max_rank E) (per_rank_map st) lin = Some (t, av)"
  shows "\<exists>used g1 vals.
           draw_genomes E av (rng_state st) = Inr (used, g1)
         \<and> vals = fst (lognormal (p_rng E) (p_mu E) (p_sigma E) (length used) g1)
         \<and> (used \<noteq> [] \<longrightarrow> length used \<le> length vals)
         \<and> (\<forall>j. otu_genome_map st_final (otu_id otu j)
                = (if j < length used
                   then Some (t, snd (used ! j), fst (used ! j),
                          map (\<lambda>a. p_fl E (p_fl E (vals ! j / sum_floats (p_fl E) vals) * a)) ab)
                   else None))"
proof -
  from run pre obtain st' where step: "process_otu E (otu, lin, ab) st = Inr st'"
    and rest: "process_otus E post st' = Inr st_final"
    by (auto simp: process_otus_append split: sum.splits)
  from dist have npre: "otu \<notin> fst ` set pre" and npost: "otu \<notin> fst ` set post"
    by auto
  have before: "otu_genome_map st (otu_id otu j) = None" for j
    using process_otus_frame [OF pre other_otu_ids [OF npre]] empty by simp
  have after: "otu_genome_map st_final (otu_id otu j) = otu_genome_map st' (otu_id otu j)" for j
    using process_otus_frame [OF rest other_otu_ids [OF npost]] by simp
  from process_otu_found [OF step] found obtain ws where
    "assign_genomes E otu t ab av (st\<lparr>warnings := ws\<rparr>) = Inr st'" by auto
  from assign_genomes_result [OF this] obtain used g1 vals where
    d: "draw_genomes E av (rng_state st) = Inr (used, g1)"
    and v: "vals = fst (lognormal (p_rng E) (p_mu E) (p_sigma E) (length used) g1)"
    and l: "used \<noteq> [] \<longrightarrow> length used \<le> length vals"
    and rec: "\<forall>j < length used.
              otu_genome_map st' (otu_id otu j)
                = Some (t, snd (used ! j), fst (used ! j),
                        map (\<lambda>a. p_fl E (p_fl E (vals ! j / sum_floats (p_fl E) vals) * a)) ab)"
    and frame: "\<forall>k. (\<forall>j < length used. k \<noteq> otu_id otu j)
                \<longrightarrow> otu_genome_map st' k = otu_genome_map st k"
    by auto
  have "otu_genome_map st_final (otu_id otu j)
                = (if j < length used
                   then Some (t, snd (used ! j), fst (used ! j),
                          map (\<lambda>a. p_fl E (p_fl E (vals ! j / sum_floats (p_fl E) vals) * a)) ab)
                   else None)" for j
  proof (cases "j < length used")
    case True
    with rec after show ?thesis by simp
  next
    case False
    then have "\<forall>i < length used. otu_id otu j \<noteq> otu_id otu i"
      by (auto simp: otu_id_inj_index)
    with frame have "otu_genome_map st' (otu_id otu j) = otu_genome_map st (otu_id otu j)"
      by blast
    with before after False show ?thesis by simp
  qed
  with d v l show ?thesis by blast
qed

lemma strain_ids_of_records:
  assumes "\<forall>j. ogm (otu_id otu j) = (if j < n then Some (r j) else None)"
  shows "strain_ids ogm otu = otu_id otu ` {..<n}" and "card (strain_ids ogm otu) = n"
proof -
  show s: "strain_ids ogm otu = otu_id otu ` {..<n}"
  proof (intro equalityI subsetI)
    fix k assume "k \<in> strain_ids ogm otu"
    then obtain i where k: "k = otu_id otu i" and d: "ogm k \<noteq> None"
      by (auto simp: strain_ids_def)
    with assms have "i < n" by (metis option.distinct(1))
    with k show "k \<in> otu_id otu ` {..<n}" by simp
  next
    fix k assume "k \<in> otu_id otu ` {..<n}"
    then obtain i where "k = otu_id otu i" "i < n" by auto
    with assms show "k \<in> strain_ids ogm otu"
      by (auto simp: strain_ids_def)
  qed
  have "inj_on (otu_id otu) {..<n}"
    by (auto simp: inj_on_def otu_id_inj_index)
  then show "card (strain_ids ogm otu) = n"
    unfolding s by (simp add: card_image)
qed

text \<open>
  C3. An OTU of a profile with distinct OTU ids, at whose turn the walk over its lineage
  arrives at a non-empty bucket \<open>av\<close>: the strain count \<open>n\<close> is
  \<^verbatim>\<open>max(geometric(2/max_strains) % max_strains, 1)\<close> on the generator state of that
  moment and lies between 1 and \<open>max_strains - 1\<close>; the OTU has at least one and at most
  \<open>min (length av) n\<close> records in the result; and when the bucket holds fewer genomes
  than \<open>n\<close>, the genomes of its records are all the genomes of the bucket. (\<open>st\<close> is
  the state after the OTUs before it; \<^verbatim>\<open>choice(n, k)\<close> is taken to return \<open>k\<close>
  indices when \<open>k \<le> n\<close>.)
\<close>

theorem strain_count:
  assumes run: "map_otus_to_genomes rnd gen taxa (pre @ (otu, lin, ab) # post) prm rks max_rk
                  m s max_str debug replace fillup g = Inr (st_final, lg)"
    and before: "map_otus_to_genomes rnd gen taxa pre prm rks max_rk
                  m s max_str debug replace fillup g = Inr (st, lg0)"
    and dist: "distinct (map fst (pre @ (otu, lin, ab) # post))"
    and found: "found_for taxa rks max_rk (per_rank_map st) lin = Some (t, av)"
    and avail: "av \<noteq> []"
    and ch: "\<forall>n k g. k \<le> n \<longrightarrow> length (fst (choice gen n k g)) = k"
  shows "let n = max (fst (geometric gen (2 / real_of_int max_str) (rng_state st)) mod max_str) 1;
             records = strain_ids (otu_genome_map st_final) otu
         in 1 \<le> n \<and> n \<le> max_str - 1
          \<and> 1 \<le> card records \<and> card records \<le> min (length av) (nat n)
          \<and> (int (length av) < n \<longrightarrow> genomes_used (otu_genome_map st_final) otu = set av)"
proof -
  let ?E = "\<lparr>p_fl = rnd, p_rng = gen, p_db = taxa, p_ranks = rks, p_max_rank = max_rk, p_mu = m,
             p_sigma = s, p_max_strains = max_str, p_replace = replace\<rparr>"
  let ?st0 = "\<lparr>otu_genome_map = Map.empty, warnings = [], per_rank_map = prm, rng_state = g\<rparr>"
  from run have r: "process_otus ?E (pre @ (otu, lin, ab) # post) ?st0 = Inr st_final"
    by (auto simp: map_otus_to_genomes_def split: sum.splits)
  from before have b: "process_otus ?E pre ?st0 = Inr st"
    by (auto simp: map_otus_to_genomes_def split: sum.splits)
  have f: "found_for (p_db ?E) (p_ranks ?E) (p_max_rank ?E) (per_rank_map st) lin = Some (t, av)"
    using found by simp
  have e: "otu_genome_map ?st0 = Map.empty" by simp
  let ?r = "\<lambda>used vals j. (t, snd (used ! j), fst (used ! j),
              map (\<lambda>a. p_fl ?E (p_fl ?E (vals ! j / sum_floats (p_fl ?E) vals) * a)) ab)"
  from otu_records [OF r b dist e f] obtain used g1 vals where
    d: "draw_genomes ?E av (rng_state st) = Inr (used, g1)"
    and rec': "\<forall>j. otu_genome_map st_final (otu_id otu j)
                = (if j < length used then Some (?r used vals j) else None)"
    by blast
  from d obtain n g0 where sd: "strains_to_draw ?E (rng_state st) = Inr (n, g0)"
    by (auto simp: draw_genomes_def split: sum.splits)
  from strains_to_draw_range [OF sd]
  have n: "n = max (fst (geometric gen (2 / real_of_int max_str) (rng_state st)) mod max_str) 1"
    and n1: "1 \<le> n" and n2: "n \<le> max_str - 1"
    by simp_all
  have "nat n \<le> length av \<longrightarrow> length (fst (choice gen (length av) (nat n) g0)) = nat n"
    using ch by blast
  have c: "length (fst (choice (p_rng ?E) (length av) (nat n) g0)) = nat n \<or> int (length av) < n"
    using ch n1 by (cases "int (length av) < n") auto
  have cnt: "1 \<le> length used \<and> length used \<le> min (length av) (nat n)
       \<and> (int (length av) < n \<longrightarrow> set used = set av)"
  proof (cases "int (length av) < n")
    case False
    with c have "length (fst (choice (p_rng ?E) (length av) (nat n) g0)) = nat n" by simp
    from draw_genomes_count [OF d sd this avail] show ?thesis .
  next
    case True
    with d sd have u: "used = remdups av" by (auto simp: draw_genomes_def)
    with avail have "used \<noteq> []" by simp
    then have "1 \<le> length used" by (cases used) simp_all
    moreover have "length used \<le> length av" using u length_remdups_leq [of av] by simp
    ultimately show ?thesis using True u by simp
  qed
  from strain_ids_of_records [OF rec']
  have ids: "strain_ids (otu_genome_map st_final) otu = otu_id otu ` {..<length used}"
    and card: "card (strain_ids (otu_genome_map st_final) otu) = length used"
    by simp_all
  have gu: "genomes_used (otu_genome_map st_final) otu = set used"
  proof (intro equalityI subsetI)
    fix x assume "x \<in> genomes_used (otu_genome_map st_final) otu"
    then obtain k a where k: "k \<in> otu_id otu ` {..<length used}"
      and a: "otu_genome_map st_final k = Some a" and x: "x = genome_of a"
      unfolding genomes_used_def ids by blast
    from k obtain j where j: "j < length used" "k = otu_id otu j" by auto
    with rec' a have "a = ?r used vals j" by simp
    with x j show "x \<in> set used" by (simp add: genome_of_def)
  next
    fix x assume "x \<in> set used"
    then obtain j where j: "j < length used" "used ! j = x" by (auto simp: in_set_conv_nth)
    with rec' have "otu_genome_map st_final (otu_id otu j) = Some (?r used vals j)" by simp
    moreover have "otu_id otu j \<in> strain_ids (otu_genome_map st_final) otu"
      unfolding ids using j by simp
    moreover have "genome_of (?r used vals j) = x" using j by (simp add: genome_of_def)
    ultimately show "x \<in> genomes_used (otu_genome_map st_final) otu"
      unfolding genomes_used_def by blast
  qed
  from n n1 n2 cnt card gu show ?thesis by (simp add: Let_def)
qed

lemma example_choice:
  "\<forall>n k g. k \<le> n \<longrightarrow> length (fst (choice example_rng n k g)) = k"
  by (simp add: example_rng_def)

theorem strain_count_witness:
  "(case (example_run id [example_otuB] True, example_run id example_profile True) of
      (Inr (st, lg0), Inr (st_final, lg)) \<Rightarrow>
        found_for example_db RANKS ''family'' (per_rank_map st) (fst (snd example_otuA))
          = Some (1279, [(''http://host/saureus'', ''1280'')])
        \<and> max (fst (geometric example_rng (2 / real_of_int 3) (rng_state st)) mod 3) 1 = 2
        \<and> card (strain_ids (otu_genome_map st_final) ''otuA'') = 1
        \<and> genomes_used (otu_genome_map st_final) ''otuA'' = {(''http://host/saureus'', ''1280'')}
    | _ \<Rightarrow> False)"
proof -
  have "case example_run id [example_otuB] True of Inl e \<Rightarrow> False | Inr x \<Rightarrow> True"
    by code_simp
  then obtain st lg0 where before: "example_run id [example_otuB] True = Inr (st, lg0)"
    by (cases "example_run id [example_otuB] True") auto
  have "case example_run id example_profile True of Inl e \<Rightarrow> False | Inr x \<Rightarrow> True"
    by code_simp
  then obtain st_final lg where run: "example_run id example_profile True = Inr (st_final, lg)"
    by (cases "example_run id example_profile True") auto
  have "case example_run id [example_otuB] True of
          Inl e \<Rightarrow> False
        | Inr (st, lg0) \<Rightarrow>
            found_for example_db RANKS ''family'' (per_rank_map st)
                [''k__Bacteria'', ''g__Staphylococcus'']
              = Some (1279, [(''http://host/saureus'', ''1280'')])
            \<and> max (fst (geometric example_rng (2 / real_of_int 3) (rng_state st)) mod 3) 1 = 2"
    by code_simp
  with before
  have found: "found_for example_db RANKS ''family'' (per_rank_map st)
                [''k__Bacteria'', ''g__Staphylococcus'']
              = Some (1279, [(''http://host/saureus'', ''1280'')])"
    and n: "max (fst (geometric example_rng (2 / real_of_int 3) (rng_state st)) mod 3) 1 = 2"
    by simp_all
  have p: "example_profile
             = [example_otuB] @ (''otuA'', [''k__Bacteria'', ''g__Staphylococcus''], [5, 10])
                 # [example_otuC]"
    by (simp add: example_profile_def example_otuA_def)
  have dist: "distinct (map fst ([example_otuB]
                @ (''otuA'', [''k__Bacteria'', ''g__Staphylococcus''], [5, 10]) # [example_otuC]))"
    by (simp add: example_otuB_def example_otuC_def)
  from strain_count [OF run [unfolded example_run_def p] before [unfolded example_run_def]
        dist found _ example_choice] n
  have "card (strain_ids (otu_genome_map st_final) ''otuA'') = 1
      \<and> genomes_used (otu_genome_map st_final) ''otuA'' = {(''http://host/saureus'', ''1280'')}"
    by (simp add: Let_def)
  with before run found n show ?thesis
    by (simp add: example_otuA_def)
qed

subsection \<open>Genomes are used once without replacement\<close>

lemma remove_genome_bucket:
  "remove_genome p prm r = Some rank_map' \<Longrightarrow> rank_map' t = Some b' \<Longrightarrow>
   \<exists>rank_map b. prm r = Some rank_map \<and> rank_map t = Some b
     \<and> b' = (if p \<in> set b then remove1 p b else b)"
proof -
  assume 1: "remove_genome p prm r = Some rank_map'" and 2: "rank_map' t = Some b'"
  from 1 obtain rank_map where r: "prm r = Some rank_map"
    and rm: "rank_map' = (\<lambda>taxid. case rank_map taxid of
                None \<Rightarrow> None
              | Some bucket \<Rightarrow> Some (if p \<in> set bucket then remove1 p bucket else bucket))"
    by (auto simp: remove_genome_def split: option.splits)
  from 2 [unfolded rm] obtain b where "rank_map t = Some b"
    "b' = (if p \<in> set b then remove1 p b else b)"
    by (cases "rank_map t") auto
  with r show ?thesis by blast
qed

lemma remove_genome_listed_once:
  assumes "listed_once prm"
  shows "listed_once (remove_genome p prm)"
  unfolding listed_once_def
proof (intro allI impI)
  fix r rank_map' t b'
  assume "remove_genome p prm r = Some rank_map'" "rank_map' t = Some b'"
  from remove_genome_bucket [OF this] obtain rank_map b where
    "prm r = Some rank_map" "rank_map t = Some b"
    "b' = (if p \<in> set b then remove1 p b else b)" by blast
  moreover from this assms have "distinct b" unfolding listed_once_def by blast
  ultimately show "distinct b'" by simp
qed

lemma remove_genome_removes:
  assumes "listed_once prm"
  shows "\<not> in_index p (remove_genome p prm)"
proof
  assume "in_index p (remove_genome p prm)"
  then obtain r rank_map' t b' where a: "remove_genome p prm r = Some rank_map'"
    "rank_map' t = Some b'" and p: "p \<in> set b'"
    unfolding in_index_def by blast
  from remove_genome_bucket [OF a] obtain rank_map b where
    b: "prm r = Some rank_map" "rank_map t = Some b"
    and b': "b' = (if p \<in> set b then remove1 p b else b)" by blast
  from b assms have "distinct b" unfolding listed_once_def by blast
  with b' p show False by (auto split: if_splits)
qed

lemma remove_genome_in_index:
  assumes "in_index q (remove_genome p prm)"
  shows "in_index q prm"
proof -
  from assms obtain r rank_map' t b' where a: "remove_genome p prm r = Some rank_map'"
    "rank_map' t = Some b'" and q: "q \<in> set b'"
    unfolding in_index_def by blast
  from remove_genome_bucket [OF a] obtain rank_map b where
    b: "prm r = Some rank_map" "rank_map t = Some b"
    and b': "b' = (if p \<in> set b then remove1 p b else b)" by blast
  from b' q have "q \<in> set b"
    using set_remove1_subset [of p b] by (auto split: if_splits)
  with b show ?thesis unfolding in_index_def by blast
qed

lemma assigned_genomesI:
  "ogm k = Some a \<Longrightarrow> genome_of a \<in> assigned_genomes ogm"
  unfolding assigned_genomes_def by (intro imageI ranI)

lemma assigned_genomes_upd:
  "assigned_genomes (ogm(k \<mapsto> a)) \<subseteq> insert (genome_of a) (assigned_genomes ogm)"
proof -
  have "ran (ogm(k \<mapsto> a)) \<subseteq> insert a (ran ogm)"
    by (auto simp: ran_def split: if_splits)
  then show ?thesis unfolding assigned_genomes_def by blast
qed

lemma no_genome_twice_upd:
  assumes "no_genome_twice ogm" and "genome_of a \<notin> assigned_genomes ogm"
  shows "no_genome_twice (ogm(k \<mapsto> a))"
  unfolding no_genome_twice_def
proof (intro allI impI)
  fix k1 k2 a1 a2
  assume 1: "(ogm(k \<mapsto> a)) k1 = Some a1" and 2: "(ogm(k \<mapsto> a)) k2 = Some a2" and ne: "k1 \<noteq> k2"
  show "genome_of a1 \<noteq> genome_of a2"
  proof (cases "k1 = k")
    case True
    with 1 ne 2 have "a1 = a" "ogm k2 = Some a2" by auto
    then have "genome_of a2 \<in> assigned_genomes ogm" "genome_of a1 = genome_of a"
      by (auto intro: assigned_genomesI)
    with assms(2) show ?thesis by auto
  next
    case False
    with 1 have o1: "ogm k1 = Some a1" by simp
    show ?thesis
    proof (cases "k2 = k")
      case True
      with 2 have "a2 = a" by simp
      moreover from o1 have "genome_of a1 \<in> assigned_genomes ogm"
        by (rule assigned_genomesI)
      ultimately show ?thesis using assms(2) by auto
    next
      case False
      with 2 have "ogm k2 = Some a2" by simp
      with o1 ne assms(1) show ?thesis unfolding no_genome_twice_def by blast
    qed
  qed
qed

lemma assign_strains_no_reuse:
  "assign_strains E otu t ab vals S i used ogm prm = Inr (ogm', prm') \<Longrightarrow>
   \<not> p_replace E \<Longrightarrow>
   listed_once prm \<Longrightarrow>
   \<forall>p \<in> assigned_genomes ogm. \<not> in_index p prm \<Longrightarrow>
   no_genome_twice ogm \<Longrightarrow>
   distinct used \<Longrightarrow>
   \<forall>u \<in> set used. u \<notin> assigned_genomes ogm \<Longrightarrow>
   listed_once prm' \<and> (\<forall>p \<in> assigned_genomes ogm'. \<not> in_index p prm') \<and> no_genome_twice ogm'"
proof (induction used arbitrary: i ogm prm)
  case Nil
  then show ?case by simp
next
  case (Cons u used)
  obtain path genome_id where u: "u = (path, genome_id)" by (cases u) auto
  let ?a = "(t, genome_id, path, map (\<lambda>a. p_fl E (p_fl E (vals ! i / S) * a)) ab)"
  let ?ogm = "ogm(otu_id otu i \<mapsto> ?a)"
  let ?prm = "remove_genome u prm"
  have ga: "genome_of ?a = u" by (simp add: genome_of_def u)
  from Cons.prems(1) u have len: "i < length vals"
    by (auto split: if_splits)
  from Cons.prems(1,2) u len
  have run: "assign_strains E otu t ab vals S (Suc i) used ?ogm ?prm = Inr (ogm', prm')"
    by (simp add: Let_def)
  have 1: "listed_once ?prm"
    using Cons.prems(3) by (rule remove_genome_listed_once)
  have sub: "assigned_genomes ?ogm \<subseteq> insert u (assigned_genomes ogm)"
    using assigned_genomes_upd [of ogm "otu_id otu i" ?a] ga by simp
  have 2: "\<forall>p \<in> assigned_genomes ?ogm. \<not> in_index p ?prm"
  proof
    fix p assume "p \<in> assigned_genomes ?ogm"
    with sub have "p = u \<or> p \<in> assigned_genomes ogm" by blast
    then show "\<not> in_index p ?prm"
    proof
      assume "p = u"
      with remove_genome_removes [OF Cons.prems(3)] show ?thesis by simp
    next
      assume "p \<in> assigned_genomes ogm"
      with Cons.prems(4) have "\<not> in_index p prm" by blast
      with remove_genome_in_index show ?thesis by blast
    qed
  qed
  have "u \<notin> assigned_genomes ogm" using Cons.prems(7) by simp
  then have 3: "no_genome_twice ?ogm"
    using no_genome_twice_upd [OF Cons.prems(5), of ?a] ga by simp
  have 4: "distinct used" using Cons.prems(6) by simp
  have 5: "\<forall>v \<in> set used. v \<notin> assigned_genomes ?ogm"
  proof
    fix v assume v: "v \<in> set used"
    with Cons.prems(6) have "v \<noteq> u" by auto
    moreover from v Cons.prems(7) have "v \<notin> assigned_genomes ogm" by simp
    ultimately show "v \<notin> assigned_genomes ?ogm" using sub by blast
  qed
  from Cons.IH [OF run Cons.prems(2) 1 2 3 4 5] show ?case .
qed

lemma found_genomes_bucket:
  "found_genomes rks max_rk prm lr l = Some (t, av) \<Longrightarrow>
   \<exists>r rank_map. prm r = Some rank_map \<and> rank_map t = Some av"
  by (induction l) (auto split: option.splits sum.splits if_splits)

lemma assign_genomes_no_reuse:
  assumes a: "assign_genomes E otu t ab av st = Inr st'"
    and r: "\<not> p_replace E"
    and inv: "no_reuse st"
    and b: "per_rank_map st rank = Some rank_map" "rank_map t' = Some av"
  shows "no_reuse st'"
proof -
  from a obtain used g1 where d: "draw_genomes E av (rng_state st) = Inr (used, g1)"
    by (auto simp: assign_genomes_def split: sum.splits)
  obtain vals g2 where l: "lognormal (p_rng E) (p_mu E) (p_sigma E) (length used) g1 = (vals, g2)"
    by (cases "lognormal (p_rng E) (p_mu E) (p_sigma E) (length used) g1") auto
  from a d l obtain ogm prm where
    s: "assign_strains E otu t ab vals (sum_floats (p_fl E) vals) 0 used
          (otu_genome_map st) (per_rank_map st) = Inr (ogm, prm)"
    and st': "st' = st\<lparr>otu_genome_map := ogm, per_rank_map := prm, rng_state := g2\<rparr>"
    by (auto simp: assign_genomes_def Let_def split: sum.splits)
  from draw_genomes_used [OF d] have du: "distinct used" and su: "set used \<subseteq> set av"
    by simp_all
  from inv have i1: "listed_once (per_rank_map st)"
    and i2: "\<forall>p \<in> assigned_genomes (otu_genome_map st). \<not> in_index p (per_rank_map st)"
    and i3: "no_genome_twice (otu_genome_map st)"
    by (simp_all add: no_reuse_def)
  have fresh: "\<forall>u \<in> set used. u \<notin> assigned_genomes (otu_genome_map st)"
  proof
    fix u assume "u \<in> set used"
    with su have "u \<in> set av" by blast
    with b have "in_index u (per_rank_map st)" unfolding in_index_def by blast
    with i2 show "u \<notin> assigned_genomes (otu_genome_map st)" by blast
  qed
  from assign_strains_no_reuse [OF s r i1 i2 i3 du fresh] st' show ?thesis
    by (simp add: no_reuse_def)
qed

lemma process_otu_no_reuse:
  assumes p: "process_otu E (otu, lin, ab) st = Inr st'"
    and r: "\<not> p_replace E"
    and inv: "no_reuse st"
  shows "no_reuse st'"
proof (cases "found_for (p_db E) (p_ranks E) (p_max_rank E) (per_rank_map st) lin")
  case None
  with process_otu_found [OF p] inv show ?thesis by (simp add: no_reuse_def)
next
  case (Some f)
  obtain t av where f: "f = (t, av)" by (cases f) auto
  from process_otu_found [OF p] Some f obtain ws where
    a: "assign_genomes E otu t ab av (st\<lparr>warnings := ws\<rparr>) = Inr st'" by auto
  from Some f obtain r' rank_map where
    b: "per_rank_map st r' = Some rank_map" "rank_map t = Some av"
    by (auto simp: found_for_def split: sum.splits dest: found_genomes_bucket)
  have "no_reuse (st\<lparr>warnings := ws\<rparr>)" using inv by (simp add: no_reuse_def)
  from assign_genomes_no_reuse [OF a r this] b show ?thesis by simp
qed

lemma process_otus_no_reuse:
  "process_otus E prof st = Inr st' \<Longrightarrow> \<not> p_replace E \<Longrightarrow> no_reuse st \<Longrightarrow> no_reuse st'"
proof (induction prof arbitrary: st)
  case Nil
  then show ?case by simp
next
  case (Cons x prof)
  obtain otu lin ab where x: "x = (otu, lin, ab)" by (cases x) auto
  from Cons.prems(1) x obtain st1 where a: "process_otu E (otu, lin, ab) st = Inr st1"
    and b: "process_otus E prof st1 = Inr st'"
    by (auto split: sum.splits)
  from process_otu_no_reuse [OF a Cons.prems(2,3)] have "no_reuse st1" .
  from Cons.IH [OF b Cons.prems(2) this] show ?case .
qed


subsubsection \<open>The index that the catalog builder returns lists every genome once\<close>

lemma init_per_rank_map_empty:
  "init_per_rank_map rks max_rk rs prm = Inr prm' \<Longrightarrow>
   \<forall>r rank_map. prm r = Some rank_map \<longrightarrow> rank_map = Map.empty \<Longrightarrow>
   \<forall>r rank_map. prm' r = Some rank_map \<longrightarrow> rank_map = Map.empty"
proof (induction rs arbitrary: prm)
  case Nil
  then show ?case by simp
next
  case (Cons r rs)
  from Cons.prems(1) obtain i j where i: "index rks r = Inr i" and j: "index rks max_rk = Inr j"
    by (auto split: sum.splits)
  show ?case
  proof (cases "i > j")
    case True
    with Cons.prems i j show ?thesis by simp
  next
    case False
    with Cons.prems(1) i j
    have run: "init_per_rank_map rks max_rk rs (prm(r \<mapsto> Map.empty)) = Inr prm'" by simp
    have "\<forall>r' rank_map. (prm(r \<mapsto> Map.empty)) r' = Some rank_map \<longrightarrow> rank_map = Map.empty"
      using Cons.prems(2) by auto
    from Cons.IH [OF run this] show ?thesis .
  qed
qed

lemma index_taxid_listed_once:
  assumes step: "index_taxid rks genome locs t prm = Inr prm'"
    and fresh: "t \<notin> D"
    and once: "listed_once prm"
    and only: "genome_only_at genome D prm"
  shows "listed_once prm' \<and> genome_only_at genome (insert t D) prm'
       \<and> (\<forall>p. in_index p prm' \<longrightarrow> in_index p prm \<or> snd p = genome)"
proof -
  from step obtain r where r: "rks t = Some r"
    by (auto simp: index_taxid_def split: option.splits)
  show ?thesis
  proof (cases "prm r")
    case None
    with step r have "prm' = prm" by (simp add: index_taxid_def)
    with once only show ?thesis by (auto simp: genome_only_at_def)
  next
    case (Some rank_map)
    with step r obtain loc ls where locs: "locs = loc # ls"
      by (auto simp: index_taxid_def split: list.splits)
    let ?b = "case rank_map t of Some bucket \<Rightarrow> bucket @ [(loc, genome)]
                                | None \<Rightarrow> [(loc, genome)]"
    from step r Some locs have prm': "prm' = prm(r \<mapsto> rank_map(t \<mapsto> ?b))"
      by (simp add: index_taxid_def)
    have db: "distinct ?b"
    proof (cases "rank_map t")
      case None
      then show ?thesis by simp
    next
      case (Some bucket)
      with \<open>prm r = Some rank_map\<close> once have "distinct bucket"
        unfolding listed_once_def by blast
      moreover have "(loc, genome) \<notin> set bucket"
      proof
        assume "(loc, genome) \<in> set bucket"
        with \<open>prm r = Some rank_map\<close> Some only have "t \<in> D"
          unfolding genome_only_at_def by blast
        with fresh show False by simp
      qed
      ultimately show ?thesis using Some by simp
    qed
    have sb: "set ?b \<subseteq> insert (loc, genome) (case rank_map t of Some bucket \<Rightarrow> set bucket
                                                              | None \<Rightarrow> {})"
      by (auto split: option.splits)
    have bucket_cases:
      "(r' = r \<and> t' = t \<and> b = ?b) \<or> (\<exists>rm. prm r' = Some rm \<and> rm t' = Some b \<and> (r', t') \<noteq> (r, t))"
      if "prm' r' = Some rank_map'" "rank_map' t' = Some b" for r' rank_map' t' b
      using that Some unfolding prm' by (auto split: if_splits)
    have 1: "listed_once prm'"
      unfolding listed_once_def
    proof (intro allI impI)
      fix r' rank_map' t' b
      assume "prm' r' = Some rank_map'" "rank_map' t' = Some b"
      from bucket_cases [OF this] show "distinct b"
        using db once unfolding listed_once_def by blast
    qed
    have 2: "genome_only_at genome (insert t D) prm'"
      unfolding genome_only_at_def
    proof (intro allI impI)
      fix r' rank_map' t' b loc'
      assume "prm' r' = Some rank_map'" "rank_map' t' = Some b" and m: "(loc', genome) \<in> set b"
      from bucket_cases [OF this(1,2)] show "t' \<in> insert t D"
        using m only unfolding genome_only_at_def by blast
    qed
    have 3: "\<forall>p. in_index p prm' \<longrightarrow> in_index p prm \<or> snd p = genome"
    proof (intro allI impI)
      fix p assume "in_index p prm'"
      then obtain r' rank_map' t' b where a: "prm' r' = Some rank_map'" "rank_map' t' = Some b"
        and p: "p \<in> set b" unfolding in_index_def by blast
      from bucket_cases [OF a] show "in_index p prm \<or> snd p = genome"
      proof
        assume "r' = r \<and> t' = t \<and> b = ?b"
        with p sb have "p = (loc, genome) \<or> (\<exists>bucket. rank_map t = Some bucket \<and> p \<in> set bucket)"
          by (auto split: option.splits)
        with Some show ?thesis unfolding in_index_def by auto
      next
        assume "\<exists>rm. prm r' = Some rm \<and> rm t' = Some b \<and> (r', t') \<noteq> (r, t)"
        with p show ?thesis unfolding in_index_def by blast
      qed
    qed
    from 1 2 3 show ?thesis by blast
  qed
qed

lemma index_lineage_listed_once:
  "index_lineage rks genome locs l prm = Inr prm' \<Longrightarrow>
   distinct l \<Longrightarrow> set l \<inter> D = {} \<Longrightarrow>
   listed_once prm \<Longrightarrow> genome_only_at genome D prm \<Longrightarrow>
   listed_once prm' \<and> (\<forall>p. in_index p prm' \<longrightarrow> in_index p prm \<or> snd p = genome)"
proof (induction l arbitrary: prm D)
  case Nil
  then show ?case by simp
next
  case (Cons t ts)
  from Cons.prems(1) obtain prm1 where a: "index_taxid rks genome locs t prm = Inr prm1"
    and b: "index_lineage rks genome locs ts prm1 = Inr prm'"
    by (auto split: sum.splits)
  from Cons.prems(3) have tD: "t \<notin> D" by simp
  from index_taxid_listed_once [OF a tD Cons.prems(4,5)]
  have 1: "listed_once prm1" and 2: "genome_only_at genome (insert t D) prm1"
    and 3: "\<forall>p. in_index p prm1 \<longrightarrow> in_index p prm \<or> snd p = genome"
    by blast+
  from Cons.prems(2) have d: "distinct ts" by simp
  from Cons.prems(2,3) have i: "set ts \<inter> insert t D = {}" by auto
  from Cons.IH [OF b d i 1 2] 3 show ?case by blast
qed

lemma index_genomes_listed_once:
  "index_genomes taxa gm prm = Inr prm' \<Longrightarrow>
   distinct (map fst gm) \<Longrightarrow>
   \<forall>genome l. lineage_of taxa genome = Some l \<longrightarrow> distinct l \<Longrightarrow>
   listed_once prm \<Longrightarrow>
   \<forall>p. in_index p prm \<longrightarrow> snd p \<notin> fst ` set gm \<Longrightarrow>
   listed_once prm'"
proof (induction gm arbitrary: prm)
  case Nil
  then show ?case by simp
next
  case (Cons x gm)
  obtain genome sci_name locs where x: "x = (genome, sci_name, locs)" by (cases x) auto
  from Cons.prems(1) x obtain l prm1 where l: "lineage_of taxa genome = Some l"
    and a: "index_lineage (get_rank taxa l) genome locs l prm = Inr prm1"
    and b: "index_genomes taxa gm prm1 = Inr prm'"
    by (auto simp: get_lineage_def split: sum.splits option.splits)
  from Cons.prems(3) l have dl: "distinct l" by blast
  have only: "genome_only_at genome {} prm"
    unfolding genome_only_at_def
  proof (intro allI impI)
    fix r rank_map t bucket loc
    assume "prm r = Some rank_map" "rank_map t = Some bucket" "(loc, genome) \<in> set bucket"
    then have "in_index (loc, genome) prm" unfolding in_index_def by blast
    with Cons.prems(5) x show "t \<in> {}" by auto
  qed
  from index_lineage_listed_once [OF a dl _ Cons.prems(4) only]
  have 1: "listed_once prm1"
    and 2: "\<forall>p. in_index p prm1 \<longrightarrow> in_index p prm \<or> snd p = genome"
    by simp_all
  have 3: "\<forall>p. in_index p prm1 \<longrightarrow> snd p \<notin> fst ` set gm"
  proof (intro allI impI)
    fix p assume "in_index p prm1"
    with 2 have "in_index p prm \<or> snd p = genome" by blast
    then show "snd p \<notin> fst ` set gm"
    proof
      assume "in_index p prm"
      with Cons.prems(5) have "snd p \<notin> fst ` set (x # gm)" by blast
      then show ?thesis by simp
    next
      assume "snd p = genome"
      with Cons.prems(2) x show ?thesis by auto
    qed
  qed
  from Cons.prems(2) have "distinct (map fst gm)" by simp
  from Cons.IH [OF b this Cons.prems(3) 1 3] show ?case .
qed

lemma get_genomes_per_rank_listed_once:
  assumes "get_genomes_per_rank taxa gm rks max_rk = Inr prm"
    and "distinct (map fst gm)"
    and "\<forall>genome l. lineage_of taxa genome = Some l \<longrightarrow> distinct l"
  shows "listed_once prm"
proof -
  from assms(1) obtain prm0 where a: "init_per_rank_map rks max_rk rks Map.empty = Inr prm0"
    and b: "index_genomes taxa gm prm0 = Inr prm"
    by (auto simp: get_genomes_per_rank_def split: sum.splits)
  from init_per_rank_map_empty [OF a]
  have e: "\<forall>r rank_map. prm0 r = Some rank_map \<longrightarrow> rank_map = Map.empty" by simp
  then have 1: "listed_once prm0" unfolding listed_once_def by auto
  from e have 2: "\<forall>p. in_index p prm0 \<longrightarrow> snd p \<notin> fst ` set gm"
    unfolding in_index_def by auto
  from index_genomes_listed_once [OF b assms(2,3) 1 2] show ?thesis .
qed

text \<open>
  C2. Without replacement (the parameter \<^verbatim>\<open>replace\<close> is false, so line 164 removes what
  is used), on the index that the catalog builder returns for a genome list with distinct
  ids and a taxonomy whose lineages repeat no id: in the result of
  \<^verbatim>\<open>map_otus_to_genomes\<close> no two records have the same (location, genome id) pair, and
  no genome of a record is left in any bucket of the index.
\<close>

theorem genomes_used_once:
  assumes index: "get_genomes_per_rank taxa genomes rks max_rk = Inr prm"
    and run: "map_otus_to_genomes rnd gen taxa prof prm rks max_rk m s max_str debug False
                fillup g = Inr (st, lg)"
    and keys: "distinct (map fst genomes)"
    and lineages: "\<forall>genome l. lineage_of taxa genome = Some l \<longrightarrow> distinct l"
  shows "no_genome_twice (otu_genome_map st)
       \<and> (\<forall>p \<in> assigned_genomes (otu_genome_map st). \<not> in_index p (per_rank_map st))"
proof -
  let ?E = "\<lparr>p_fl = rnd, p_rng = gen, p_db = taxa, p_ranks = rks, p_max_rank = max_rk, p_mu = m,
             p_sigma = s, p_max_strains = max_str, p_replace = False\<rparr>"
  let ?st0 = "\<lparr>otu_genome_map = Map.empty, warnings = [], per_rank_map = prm, rng_state = g\<rparr>"
  from run have r: "process_otus ?E prof ?st0 = Inr st"
    by (auto simp: map_otus_to_genomes_def split: sum.splits)
  have "listed_once prm"
    using index keys lineages by (rule get_genomes_per_rank_listed_once)
  then have "no_reuse ?st0"
    by (simp add: no_reuse_def assigned_genomes_def no_genome_twice_def)
  from process_otus_no_reuse [OF r _ this] show ?thesis
    by (simp add: no_reuse_def)
qed


lemma example_lineages:
  "\<forall>genome l. lineage_of example_db genome = Some l \<longrightarrow> distinct l"
  by (auto simp: example_db_def split: if_splits)

theorem genomes_used_once_witness:
  "(case example_run id example_profile False of
      Inl e \<Rightarrow> False
    | Inr (st, lg) \<Rightarrow>
        map (\<lambda>k. map_option genome_of (otu_genome_map st k))
            [''otuB.0'', ''otuB.1'', ''otuA.0'', ''otuC.0'']
          = [Some (''http://host/ecoli'', ''562''), Some (''http://host/efer'', ''564''),
             Some (''http://host/saureus'', ''1280''), None]
        \<and> no_genome_twice (otu_genome_map st)
        \<and> \<not> in_index (''http://host/ecoli'', ''562'') (per_rank_map st))"
proof -
  have v: "case example_run id example_profile False of
          Inl e \<Rightarrow> False
        | Inr (st, lg) \<Rightarrow>
            map (\<lambda>k. map_option genome_of (otu_genome_map st k))
                [''otuB.0'', ''otuB.1'', ''otuA.0'', ''otuC.0'']
              = [Some (''http://host/ecoli'', ''562''), Some (''http://host/efer'', ''564''),
                 Some (''http://host/saureus'', ''1280''), None]"
    by code_simp
  then obtain st lg where run: "example_run id example_profile False = Inr (st, lg)"
    by (cases "example_run id example_profile False") auto
  from v run have m: "map_option genome_of (otu_genome_map st ''otuB.0'')
                        = Some (''http://host/ecoli'', ''562'')"
    by simp
  then obtain a where "otu_genome_map st ''otuB.0'' = Some a"
    "genome_of a = (''http://host/ecoli'', ''562'')" by auto
  with assigned_genomesI [of "otu_genome_map st" "''otuB.0''" a]
  have "(''http://host/ecoli'', ''562'') \<in> assigned_genomes (otu_genome_map st)"
    by simp
  moreover have keys: "distinct (map fst example_genomes)"
    by (simp add: example_genomes_def)
  note genomes_used_once [OF example_rank_index run [unfolded example_run_def] keys
      example_lineages]
  ultimately have "no_genome_twice (otu_genome_map st)
      \<and> \<not> in_index (''http://host/ecoli'', ''562'') (per_rank_map st)"
    by blast
  with v run show ?thesis by simp
qed

subsection \<open>The abundance split\<close>

















end
